theory Spec2Isabelle
  imports Complex_Main "HOL-Library.Multiset"
begin

section \<open>JavaScript values\<close>

text \<open>
  The dashboard computes with JavaScript numbers read from a JSON response and with
  property reads that may yield \<open>undefined\<close>.  A value is a finite number, one of
  the two infinities, \<open>NaN\<close> or \<open>undefined\<close>.  Finite numbers are exact rationals:
  the rounding error of binary floating point and the sign of zero are not modelled.
  For the integers the scores range over, sums are exact in double precision and the
  quotient by six lies on the same side of the nearest half as the exact quotient, so
  \<open>Math.round\<close> of the double and of the rational agree.

  Two more values come from reading a property of an object that is used as a
  dictionary.  \<open>Inherited k\<close> is what the key \<open>k\<close> reads as when the object has no
  property of its own under it and \<open>Object.prototype\<close> has one: a built-in function
  such as \<open>Object\<close> for \<open>constructor\<close>, or \<open>Object.prototype\<close> itself for
  \<open>__proto__\<close>.  It is truthy and converts to the number \<open>NaN\<close>.  Added to anything
  with \<open>+\<close> it converts to its text (the source text of the function, or
  \<open>[object Object]\<close>), and the sum is the concatenation of two strings: \<open>ObjText\<close>
  stands for a string that contains such a text.  It is not empty, so truthy; it is not
  the text of a number, so it converts to \<open>NaN\<close>.
\<close>

datatype jsval = Num rat | PInf | NInf | NaN | Undefined | Inherited string | ObjText

text \<open>The binary \<open>+\<close>: a concatenation as soon as one operand is \<open>Inherited\<close> or
  \<open>ObjText\<close>, the sum of two numbers otherwise (\<open>undefined\<close> converts to
  \<open>NaN\<close>).\<close>

fun js_add :: "jsval \<Rightarrow> jsval \<Rightarrow> jsval" where
  "js_add ObjText b = ObjText"
| "js_add (Inherited k) b = ObjText"
| "js_add a ObjText = ObjText"
| "js_add a (Inherited k) = ObjText"
| "js_add (Num a) (Num b) = Num (a + b)"
| "js_add (Num a) PInf = PInf"
| "js_add (Num a) NInf = NInf"
| "js_add PInf (Num b) = PInf"
| "js_add PInf PInf = PInf"
| "js_add PInf NInf = NaN"
| "js_add NInf (Num b) = NInf"
| "js_add NInf NInf = NInf"
| "js_add NInf PInf = NaN"
| "js_add _ _ = NaN"

text \<open>The binary \<open>-\<close>, which converts both operands to numbers.\<close>

fun js_sub :: "jsval \<Rightarrow> jsval \<Rightarrow> jsval" where
  "js_sub (Num a) (Num b) = Num (a - b)"
| "js_sub (Num a) PInf = NInf"
| "js_sub (Num a) NInf = PInf"
| "js_sub PInf (Num b) = PInf"
| "js_sub PInf NInf = PInf"
| "js_sub PInf PInf = NaN"
| "js_sub NInf (Num b) = NInf"
| "js_sub NInf PInf = NInf"
| "js_sub NInf NInf = NaN"
| "js_sub _ _ = NaN"

text \<open>Division of a value by the literal \<open>6\<close> or by an array length: the divisor is
  a natural number.  \<open>0 / 0\<close> is \<open>NaN\<close>, and a non-zero number over \<open>0\<close> is an
  infinity.\<close>

fun js_div_len :: "jsval \<Rightarrow> nat \<Rightarrow> jsval" where
  "js_div_len (Num a) n =
     (if n = 0 then (if a = 0 then NaN else if 0 < a then PInf else NInf)
      else Num (a / of_nat n))"
| "js_div_len PInf n = PInf"
| "js_div_len NInf n = NInf"
| "js_div_len NaN n = NaN"
| "js_div_len Undefined n = NaN"
| "js_div_len (Inherited k) n = NaN"
| "js_div_len ObjText n = NaN"

text \<open>\<open>Math.round\<close>: the nearest integer, a tie going up.\<close>

fun Math_round :: "jsval \<Rightarrow> jsval" where
  "Math_round (Num q) = Num (of_int \<lfloor>q + 1 / 2\<rfloor>)"
| "Math_round PInf = PInf"
| "Math_round NInf = NInf"
| "Math_round NaN = NaN"
| "Math_round Undefined = NaN"
| "Math_round (Inherited k) = NaN"
| "Math_round ObjText = NaN"

text \<open>Truthiness, and \<open>a || b\<close>: the left operand when it is truthy, the right one
  otherwise.  Zero, \<open>NaN\<close> and \<open>undefined\<close> are falsy; an object, a function and
  a string that is not empty are truthy.\<close>

fun truthy :: "jsval \<Rightarrow> bool" where
  "truthy (Num q) = (q \<noteq> 0)"
| "truthy PInf = True"
| "truthy NInf = True"
| "truthy NaN = False"
| "truthy Undefined = False"
| "truthy (Inherited k) = True"
| "truthy ObjText = True"

definition js_or :: "jsval \<Rightarrow> jsval \<Rightarrow> jsval" where
  "js_or a b = (if truthy a then a else b)"

text \<open>The comparisons \<open>v > 0\<close> and \<open>v < 0\<close>; both are false on \<open>NaN\<close> and on
  what converts to it.\<close>

fun js_gt0 :: "jsval \<Rightarrow> bool" where
  "js_gt0 (Num q) = (0 < q)"
| "js_gt0 PInf = True"
| "js_gt0 _ = False"

fun js_lt0 :: "jsval \<Rightarrow> bool" where
  "js_lt0 (Num q) = (q < 0)"
| "js_lt0 NInf = True"
| "js_lt0 _ = False"

text \<open>The order of two scores, used to say that a list is ascending: \<open>a\<close> is at most
  \<open>b\<close> as numbers, the infinities among them.  It does not hold as soon as one side
  is not a number.\<close>

fun score_le :: "jsval \<Rightarrow> jsval \<Rightarrow> bool" where
  "score_le (Num a) (Num b) = (a \<le> b)"
| "score_le (Num a) PInf = True"
| "score_le (Num a) _ = False"
| "score_le NInf (Num b) = True"
| "score_le NInf NInf = True"
| "score_le NInf PInf = True"
| "score_le NInf _ = False"
| "score_le PInf PInf = True"
| "score_le PInf _ = False"
| "score_le NaN _ = False"
| "score_le Undefined _ = False"
| "score_le (Inherited k) _ = False"
| "score_le ObjText _ = False"

fun is_number :: "jsval \<Rightarrow> bool" where
  "is_number (Num q) = True"
| "is_number _ = False"

section \<open>The history data\<close>

text \<open>
  \<open>HealthHistoryEntry\<close> as the pages declare it.  A score field is a \<open>jsval\<close>: the
  helper functions take \<open>file: any\<close>, and a field missing from the response reads as
  \<open>undefined\<close>.  The fields \<open>score\<close> and \<open>issues\<close> of a component are written
  \<open>comp_score\<close> and \<open>comp_issues\<close>, apart from the file's.
\<close>

record FileMetrics =
  filepath :: string
  size_score :: jsval
  complexity_score :: jsval
  duplication_score :: jsval
  function_length_score :: jsval
  comment_density_score :: jsval
  naming_convention_score :: jsval
  issues :: "string list"

record ComponentResult =
  name :: string
  comp_score :: jsval
  files :: "FileMetrics list"
  comp_issues :: "string list"

record Results =
  overall_score :: jsval
  components :: "ComponentResult list"
  recommendations :: "string list"

record HealthHistoryEntry =
  timestamp :: jsval
  date :: string
  results :: Results

section \<open>The composite score of a file\<close>

text \<open>\<open>calculateFileAvgScore\<close> of \<open>ui/utils/codeHealthUtils.tsx\<close> and of
  \<open>ui/pages/CodeHealth.tsx\<close> (the same text in both): the six fields are added from
  left to right, divided by six and rounded.\<close>

definition calculateFileAvgScore :: "FileMetrics \<Rightarrow> jsval" where
  "calculateFileAvgScore file =
     Math_round
       (js_div_len
          (js_add (js_add (js_add (js_add (js_add
             (size_score file)
             (complexity_score file))
             (duplication_score file))
             (function_length_score file))
             (comment_density_score file))
             (naming_convention_score file))
          6)"

text \<open>\<open>calculateFileAvgScore\<close> of the later page: every field goes through
  \<open>|| 0\<close> into an array, which is summed by \<open>reduce\<close> from \<open>0\<close> and divided by its
  length.\<close>

definition calculateFileAvgScore_or0 :: "FileMetrics \<Rightarrow> jsval" where
  "calculateFileAvgScore_or0 file =
     (let scores =
        [js_or (size_score file) (Num 0),
         js_or (complexity_score file) (Num 0),
         js_or (duplication_score file) (Num 0),
         js_or (function_length_score file) (Num 0),
         js_or (comment_density_score file) (Num 0),
         js_or (naming_convention_score file) (Num 0)]
      in Math_round (js_div_len (foldl js_add (Num 0) scores) (length scores)))"

section \<open>Strings and the three regular expressions\<close>

text \<open>
  A path is a \<open>string\<close>.  \<open>s.includes(p)\<close> holds when \<open>p\<close> starts at some position
  of \<open>s\<close>.
\<close>

fun starts_with :: "string \<Rightarrow> string \<Rightarrow> bool" where
  "starts_with s [] = True"
| "starts_with [] (p # ps) = False"
| "starts_with (c # cs) (p # ps) = (c = p \<and> starts_with cs ps)"

fun js_includes :: "string \<Rightarrow> string \<Rightarrow> bool" where
  "js_includes [] p = starts_with [] p"
| "js_includes (c # cs) p = (starts_with (c # cs) p \<or> js_includes cs p)"

text \<open>\<open>filepath.replace(/^\/+/, '')\<close> removes the slashes the path begins with.\<close>

definition strip_leading_slashes :: "string \<Rightarrow> string" where
  "strip_leading_slashes s = dropWhile (\<lambda>c. c = CHR ''/'') s"

text \<open>
  The regular expressions of the API test use literal characters, the class
  \<open>[^\/]\<close>, the dot (any character but a line terminator; on the bytes of a
  \<open>string\<close> these are line feed and carriage return) and the quantifiers \<open>+\<close> and
  \<open>*\<close>.  \<open>match_here r s\<close> holds when \<open>r\<close> matches at the start of \<open>s\<close>, and
  \<open>s.match(r)\<close> is truthy when \<open>r\<close> matches at some position of \<open>s\<close>.
\<close>

datatype atom = Lit char | Dot | NotSlash

datatype item = One atom | Plus atom | Star atom

fun accepts :: "atom \<Rightarrow> char \<Rightarrow> bool" where
  "accepts (Lit l) c = (c = l)"
| "accepts Dot c = (c \<noteq> CHR 0x0A \<and> c \<noteq> CHR 0x0D)"
| "accepts NotSlash c = (c \<noteq> CHR ''/'')"

fun match_here :: "item list \<Rightarrow> string \<Rightarrow> bool" where
  "match_here [] s = True"
| "match_here (One a # r) [] = False"
| "match_here (One a # r) (c # cs) = (accepts a c \<and> match_here r cs)"
| "match_here (Plus a # r) [] = False"
| "match_here (Plus a # r) (c # cs) = (accepts a c \<and> match_here (Star a # r) cs)"
| "match_here (Star a # r) [] = match_here r []"
| "match_here (Star a # r) (c # cs) =
     (match_here r (c # cs) \<or> (accepts a c \<and> match_here (Star a # r) cs))"

fun js_match :: "string \<Rightarrow> item list \<Rightarrow> bool" where
  "js_match [] r = match_here r []"
| "js_match (c # cs) r = (match_here r (c # cs) \<or> js_match cs r)"

definition lits :: "string \<Rightarrow> item list" where
  "lits s = map (\<lambda>c. One (Lit c)) s"

text \<open>\<open>/apis\/[^\/]+\/__init__.py/\<close> (its dot is not escaped),
  \<open>/apis\/[^\/]+\/.*\.py/\<close> and \<open>/api\/[^\/]+/\<close>.\<close>

definition re_apis_init :: "item list" where
  "re_apis_init = lits ''apis/'' @ [Plus NotSlash] @ lits ''/__init__'' @ [One Dot] @ lits ''py''"

definition re_apis_py :: "item list" where
  "re_apis_py = lits ''apis/'' @ [Plus NotSlash] @ lits ''/'' @ [Star Dot] @ lits ''.py''"

definition re_api_segment :: "item list" where
  "re_api_segment = lits ''api/'' @ [Plus NotSlash]"

section \<open>The category of a path\<close>

text \<open>\<open>categorizeFileByPath\<close> of \<open>ui/utils/codeHealthUtils.tsx\<close>: the tests are made
  on the path as given, the one for API files last.\<close>

definition categorizeFileByPath :: "string \<Rightarrow> string" where
  "categorizeFileByPath path =
     (if js_includes path ''/pages/'' then ''Pages''
      else if js_includes path ''/components/'' then ''Components''
      else if js_includes path ''/utils/'' \<or> js_includes path ''/src/utils/'' then ''UI Files''
      else if js_includes path ''/apis/'' \<or> js_includes path ''/api/'' then ''API Files''
      else ''Other'')"

text \<open>\<open>categorizeFileByPath\<close> of \<open>ui/pages/CodeHealth.tsx\<close>: as above, with one more
  API pattern.\<close>

definition categorizeFileByPath_page :: "string \<Rightarrow> string" where
  "categorizeFileByPath_page path =
     (if js_includes path ''/pages/'' then ''Pages''
      else if js_includes path ''/components/'' then ''Components''
      else if js_includes path ''/utils/'' \<or> js_includes path ''/src/utils/'' then ''UI Files''
      else if js_includes path ''/apis/'' \<or> js_includes path ''/api/''
              \<or> js_includes path ''src/app/apis/'' then ''API Files''
      else ''Other'')"

text \<open>\<open>categorizeFileByPath\<close> of the later page: the leading slashes are removed,
  the API patterns are tested first, on the path so normalised, and the other
  categories after them.  (The two \<open>console.log\<close> calls are left out.)\<close>

definition is_api_path :: "string \<Rightarrow> bool" where
  "is_api_path normalizedPath =
     (js_includes normalizedPath ''app/apis/''
      \<or> js_includes normalizedPath ''src/app/apis/''
      \<or> js_includes normalizedPath ''apis/''
      \<or> js_match normalizedPath re_apis_init
      \<or> js_match normalizedPath re_apis_py
      \<or> js_match normalizedPath re_api_segment
      \<or> js_includes normalizedPath ''/api/'')"

definition categorizeFileByPath_api_first :: "string \<Rightarrow> string" where
  "categorizeFileByPath_api_first path =
     (let normalizedPath = strip_leading_slashes path in
      if is_api_path normalizedPath then ''API Files''
      else if js_includes normalizedPath ''/pages/'' then ''Pages''
      else if js_includes normalizedPath ''/components/'' then ''Components''
      else if js_includes normalizedPath ''/utils/'' \<or> js_includes normalizedPath ''/src/utils/''
        then ''UI Files''
      else ''Other'')"

section \<open>Objects used as dictionaries\<close>

text \<open>
  An object that the code creates with \<open>{}\<close> and fills key by key is the list of its
  own properties, key and value, in insertion order, which is the order \<open>Object.keys\<close>
  walks for keys that are not array indices.  Writing an existing key keeps its
  position.

  Such an object has \<open>Object.prototype\<close> as its prototype.  A key it has no property
  of its own under is looked up there, and \<open>Object.prototype\<close> has the twelve
  properties below: the seven of the language standard and the five of its annex for
  browsers.  So a read \<open>obj[k]\<close> finds the object's own value, or an inherited one,
  or nothing (\<open>undefined\<close>).
\<close>

definition Object_prototype_keys :: "string list" where
  "Object_prototype_keys =
     [''constructor'', ''__defineGetter__'', ''__defineSetter__'', ''hasOwnProperty'',
      ''__lookupGetter__'', ''__lookupSetter__'', ''isPrototypeOf'', ''propertyIsEnumerable'',
      ''toString'', ''valueOf'', ''__proto__'', ''toLocaleString'']"

definition inherited :: "string \<Rightarrow> bool" where
  "inherited k = (k \<in> set Object_prototype_keys)"

datatype 'v lookup = Own 'v | FromPrototype string | Absent

definition obj_get :: "(string \<times> 'v) list \<Rightarrow> string \<Rightarrow> 'v lookup" where
  "obj_get obj k =
     (case map_of obj k of
        Some v \<Rightarrow> Own v
      | None \<Rightarrow> if inherited k then FromPrototype k else Absent)"

text \<open>The read \<open>obj[k]\<close> of an object whose own values are numbers.\<close>

definition obj_num :: "(string \<times> jsval) list \<Rightarrow> string \<Rightarrow> jsval" where
  "obj_num obj k =
     (case obj_get obj k of
        Own v \<Rightarrow> v
      | FromPrototype k' \<Rightarrow> Inherited k'
      | Absent \<Rightarrow> Undefined)"

text \<open>
  The assignment \<open>obj[k] = v\<close>.  Eleven of the inherited properties are writable
  data properties, and assigning under their key gives the object a property of its
  own, as under any other key: \<open>obj_set\<close>.  The twelfth, \<open>__proto__\<close>, is an accessor,
  and the assignment calls its setter, which never creates a property: it ignores a
  number, and it makes an object or an array the new prototype.  The operations assign
  numbers under arbitrary paths; they assign an array or an object only under a key
  that is not inherited (lemma \<open>forEach_observe_keys\<close>), so the prototype of their
  dictionaries stays \<open>Object.prototype\<close>.
\<close>

fun obj_set :: "'k \<Rightarrow> 'v \<Rightarrow> ('k \<times> 'v) list \<Rightarrow> ('k \<times> 'v) list" where
  "obj_set k v [] = [(k, v)]"
| "obj_set k v ((k', v') # kvs) =
     (if k' = k then (k, v) # kvs else (k', v') # obj_set k v kvs)"

definition obj_put :: "string \<Rightarrow> 'v \<Rightarrow> (string \<times> 'v) list \<Rightarrow> (string \<times> 'v) list" where
  "obj_put k v obj = (if k = ''__proto__'' then obj else obj_set k v obj)"

section \<open>The processed file\<close>

text \<open>
  The object built for each file of the latest run.  \<open>processFilesData\<close> returns the
  fields of \<open>ProcessedFile\<close>; the pages add \<open>component\<close>.  The pages that build the
  object with \<open>...file\<close> copy the path, the issues and the six raw scores, which
  \<open>out_filepath\<close>, \<open>out_issues\<close> and \<open>details\<close> hold.  The fields of \<open>details\<close>
  are prefixed with \<open>d_\<close>.
\<close>

record Details =
  d_size :: jsval
  d_complexity :: jsval
  d_duplication :: jsval
  d_function_length :: jsval
  d_comment_density :: jsval
  d_naming_convention :: jsval

record ProcessedFile =
  out_filepath :: string
  score :: jsval
  previousScore :: jsval
  scoreChange :: jsval
  out_issues :: "string list"
  details :: Details

record FileInfo = ProcessedFile +
  component :: string

definition details_of :: "FileMetrics \<Rightarrow> Details" where
  "details_of file =
     \<lparr>d_size = size_score file,
      d_complexity = complexity_score file,
      d_duplication = duplication_score file,
      d_function_length = function_length_score file,
      d_comment_density = comment_density_score file,
      d_naming_convention = naming_convention_score file\<rparr>"

text \<open>The first loop of \<open>processFilesData\<close> and of \<open>getFilesGroupedByType\<close>:
  \<open>previousScores[file.filepath] = avgScore\<close> for every file, a later file with the
  same path overwriting an earlier one.  \<open>avg\<close> is the \<open>calculateFileAvgScore\<close> of
  the module at hand.\<close>

definition record_previous ::
  "(FileMetrics \<Rightarrow> jsval) \<Rightarrow> (string \<times> jsval) list \<Rightarrow> FileMetrics list
    \<Rightarrow> (string \<times> jsval) list" where
  "record_previous avg previousScores fs =
     foldl (\<lambda>scores file. obj_put (filepath file) (avg file) scores) previousScores fs"

text \<open>\<open>processFilesData\<close> of \<open>ui/utils/codeHealthUtils.tsx\<close>.  The second argument
  is optional; an array, even an empty one, is truthy.\<close>

definition process_file :: "(string \<times> jsval) list \<Rightarrow> FileMetrics \<Rightarrow> ProcessedFile" where
  "process_file previousScores file =
     (let avgScore = calculateFileAvgScore file;
          previousScore = js_or (obj_num previousScores (filepath file)) avgScore;
          scoreChange = js_sub avgScore previousScore
      in \<lparr>out_filepath = filepath file,
          score = avgScore,
          previousScore = previousScore,
          scoreChange = scoreChange,
          out_issues = issues file,
          details = details_of file\<rparr>)"

definition processFilesData ::
  "FileMetrics list \<Rightarrow> FileMetrics list option \<Rightarrow> ProcessedFile list" where
  "processFilesData currentFiles previousFiles =
     (let previousScores =
            (case previousFiles of
               None \<Rightarrow> []
             | Some fs \<Rightarrow> record_previous calculateFileAvgScore [] fs)
      in map (process_file previousScores) currentFiles)"

section \<open>Grouping the files of the latest run\<close>

text \<open>
  A call of \<open>push\<close> on a value that has no such method throws a \<open>TypeError\<close>, which
  is what \<open>allFiles[category].push(fileInfo)\<close> does when \<open>allFiles\<close> has no array of
  its own under \<open>category\<close>: the read gives \<open>undefined\<close>, or an inherited value,
  which is no array.  A loop body that can throw is run by \<open>forEach_err\<close>, which stops
  at the first error.
\<close>

datatype js_error = TypeError

fun push_to :: "(string \<times> 'a list) list \<Rightarrow> string \<Rightarrow> 'a \<Rightarrow> js_error + (string \<times> 'a list) list" where
  "push_to [] k x = Inl TypeError"
| "push_to ((k', xs) # rest) k x =
     (if k' = k then Inr ((k', xs @ [x]) # rest)
      else (case push_to rest k x of
              Inl e \<Rightarrow> Inl e
            | Inr rest' \<Rightarrow> Inr ((k', xs) # rest')))"

fun forEach_err :: "('s \<Rightarrow> 'a \<Rightarrow> js_error + 's) \<Rightarrow> 'a list \<Rightarrow> 's \<Rightarrow> js_error + 's" where
  "forEach_err body [] s = Inr s"
| "forEach_err body (x # xs) s =
     (case body s x of
        Inl e \<Rightarrow> Inl e
      | Inr s' \<Rightarrow> forEach_err body xs s')"

text \<open>
  \<open>xs.sort(cmp)\<close>.  The sort of an array is stable, and the arrangement it reaches
  with a consistent comparator is the one insertion from the right reaches: an element
  goes after the elements it is greater than, and before the first one it is not.  A
  comparator result that is \<open>NaN\<close> counts as zero.
\<close>

fun insert_by :: "('a \<Rightarrow> 'a \<Rightarrow> jsval) \<Rightarrow> 'a \<Rightarrow> 'a list \<Rightarrow> 'a list" where
  "insert_by cmp x [] = [x]"
| "insert_by cmp x (y # ys) =
     (if js_gt0 (cmp x y) then y # insert_by cmp x ys else x # y # ys)"

definition js_sort :: "('a \<Rightarrow> 'a \<Rightarrow> jsval) \<Rightarrow> 'a list \<Rightarrow> 'a list" where
  "js_sort cmp xs = foldr (insert_by cmp) xs []"

definition by_score :: "('a ProcessedFile_scheme) \<Rightarrow> ('a ProcessedFile_scheme) \<Rightarrow> jsval" where
  "by_score a b = js_sub (score a) (score b)"

definition allFiles_init :: "(string \<times> FileInfo list) list" where
  "allFiles_init =
     [(''Pages'', []), (''Components'', []), (''UI Files'', []), (''API Files'', []),
      (''Other'', [])]"

definition sort_each :: "(string \<times> FileInfo list) list \<Rightarrow> (string \<times> FileInfo list) list" where
  "sort_each allFiles = map (\<lambda>(key, fs). (key, js_sort by_score fs)) allFiles"

text \<open>The object built for a file by the pages that do not call
  \<open>processFilesData\<close>.\<close>

definition make_file_info ::
  "(FileMetrics \<Rightarrow> jsval) \<Rightarrow> (string \<times> jsval) list \<Rightarrow> ComponentResult \<Rightarrow> FileMetrics
    \<Rightarrow> FileInfo" where
  "make_file_info avg previousScores compo file =
     (let avgScore = avg file;
          previousScore = js_or (obj_num previousScores (filepath file)) avgScore;
          scoreChange = js_sub avgScore previousScore
      in \<lparr>out_filepath = filepath file,
          score = avgScore,
          previousScore = previousScore,
          scoreChange = scoreChange,
          out_issues = issues file,
          details = details_of file,
          component = name compo\<rparr>)"

text \<open>
  \<open>getFilesGroupedByType\<close> of \<open>ui/pages/CodeHealth.tsx\<close> and of the later page.  The
  two have the same text and differ in the \<open>calculateFileAvgScore\<close> and the
  \<open>categorizeFileByPath\<close> of their module, here \<open>avg\<close> and \<open>categorize\<close>.  The
  argument is the state \<open>healthHistory\<close>; an empty history gives \<open>{}\<close>.
\<close>

definition latest_entry :: "HealthHistoryEntry list \<Rightarrow> HealthHistoryEntry" where
  "latest_entry healthHistory = healthHistory ! (length healthHistory - 1)"

definition previous_entry :: "HealthHistoryEntry list \<Rightarrow> HealthHistoryEntry option" where
  "previous_entry healthHistory =
     (if length healthHistory > 1 then Some (healthHistory ! (length healthHistory - 2))
      else None)"

definition group_files ::
  "(FileMetrics \<Rightarrow> jsval) \<Rightarrow> (string \<Rightarrow> string) \<Rightarrow> HealthHistoryEntry list
    \<Rightarrow> js_error + (string \<times> FileInfo list) list" where
  "group_files avg categorize healthHistory =
     (if length healthHistory = 0 then Inr []
      else
        let latestEntry = latest_entry healthHistory;
            previousScores =
              (case previous_entry healthHistory of
                 None \<Rightarrow> []
               | Some previousEntry \<Rightarrow>
                   foldl (\<lambda>scores compo. record_previous avg scores (files compo)) []
                     (components (results previousEntry)))
        in case forEach_err
                  (\<lambda>allFiles compo.
                     forEach_err
                       (\<lambda>allFiles file.
                          push_to allFiles (categorize (filepath file))
                            (make_file_info avg previousScores compo file))
                       (files compo) allFiles)
                  (components (results latestEntry)) allFiles_init of
             Inl e \<Rightarrow> Inl e
           | Inr allFiles \<Rightarrow> Inr (sort_each allFiles))"

definition getFilesGroupedByType ::
  "HealthHistoryEntry list \<Rightarrow> js_error + (string \<times> FileInfo list) list" where
  "getFilesGroupedByType = group_files calculateFileAvgScore categorizeFileByPath_page"

definition getFilesGroupedByType_api_first ::
  "HealthHistoryEntry list \<Rightarrow> js_error + (string \<times> FileInfo list) list" where
  "getFilesGroupedByType_api_first =
     group_files calculateFileAvgScore_or0 categorizeFileByPath_api_first"

text \<open>\<open>getFilesGroupedByType\<close> of the history page, which calls \<open>processFilesData\<close>
  for every component and \<open>categorizeFileByPath\<close> of the utilities module.\<close>

definition getFilesGroupedByType_history ::
  "HealthHistoryEntry list \<Rightarrow> js_error + (string \<times> FileInfo list) list" where
  "getFilesGroupedByType_history healthHistory =
     (if length healthHistory = 0 then Inr []
      else
        let latestEntry = latest_entry healthHistory;
            previousFiles =
              (case previous_entry healthHistory of
                 None \<Rightarrow> []
               | Some previousEntry \<Rightarrow> concat (map files (components (results previousEntry))));
            processedFiles =
              concat (map (\<lambda>compo.
                             map (\<lambda>fileInfo. ProcessedFile.extend fileInfo
                                                \<lparr>component = name compo\<rparr>)
                               (processFilesData (files compo) (Some previousFiles)))
                        (components (results latestEntry)))
        in case forEach_err
                  (\<lambda>allFiles fileInfo.
                     push_to allFiles (categorizeFileByPath (out_filepath fileInfo)) fileInfo)
                  processedFiles allFiles_init of
             Inl e \<Rightarrow> Inl e
           | Inr allFiles \<Rightarrow> Inr (sort_each allFiles))"

section \<open>Trends over the whole history\<close>

datatype direction = up | down | neutral

record Trend =
  trend :: direction
  change :: jsval

text \<open>The body of the innermost loop of \<open>calculateFileTrends\<close>.  When
  \<open>fileScores[filepath]\<close> is falsy, which is when the read finds nothing, an empty
  array is assigned under the path (an array, even an empty one, is truthy, and so is
  an inherited value).  Then \<open>fileScores[filepath].push(score)\<close> appends the score to
  the array the read gives, in place; on an inherited value, which has no \<open>push\<close>,
  the call throws.\<close>

definition observe ::
  "(FileMetrics \<Rightarrow> jsval) \<Rightarrow> (string \<times> jsval list) list \<Rightarrow> FileMetrics
    \<Rightarrow> js_error + (string \<times> jsval list) list" where
  "observe avg fileScores file =
     (let path = filepath file;
          score = avg file;
          fileScores' = (case obj_get fileScores path of
                           Absent \<Rightarrow> obj_put path [] fileScores
                         | _ \<Rightarrow> fileScores)
      in case obj_get fileScores' path of
           Own scores \<Rightarrow> Inr (obj_set path (scores @ [score]) fileScores')
         | _ \<Rightarrow> Inl TypeError)"

definition collect_scores ::
  "(FileMetrics \<Rightarrow> jsval) \<Rightarrow> HealthHistoryEntry list
    \<Rightarrow> js_error + (string \<times> jsval list) list" where
  "collect_scores avg healthHistory =
     forEach_err
       (\<lambda>fileScores entry.
          forEach_err
            (\<lambda>fileScores compo. forEach_err (observe avg) (files compo) fileScores)
            (components (results entry)) fileScores)
       healthHistory []"

definition trend_of :: "jsval \<Rightarrow> direction" where
  "trend_of delta = (if js_gt0 delta then up else if js_lt0 delta then down else neutral)"

definition add_trend ::
  "(string \<times> Trend) list \<Rightarrow> string \<times> jsval list \<Rightarrow> (string \<times> Trend) list" where
  "add_trend fileTrends entry =
     (case entry of (path, scores) \<Rightarrow>
        if length scores > 1 then
          let firstScore = scores ! 0;
              latestScore = scores ! (length scores - 1);
              change = js_sub latestScore firstScore
          in obj_put path \<lparr>trend = trend_of change, change = change\<rparr> fileTrends
        else fileTrends)"

text \<open>\<open>calculateFileTrends\<close> of \<open>ui/pages/CodeHealth.tsx\<close> and of the later page (the
  same text, with the \<open>calculateFileAvgScore\<close> of the module).  The result is the
  list of the own properties of \<open>fileTrends\<close>, or the error thrown in the first
  loop.\<close>

definition file_trends ::
  "(FileMetrics \<Rightarrow> jsval) \<Rightarrow> HealthHistoryEntry list \<Rightarrow> js_error + (string \<times> Trend) list" where
  "file_trends avg healthHistory =
     (if length healthHistory \<le> 1 then Inr []
      else case collect_scores avg healthHistory of
             Inl e \<Rightarrow> Inl e
           | Inr fileScores \<Rightarrow> Inr (foldl add_trend [] fileScores))"

definition calculateFileTrends ::
  "HealthHistoryEntry list \<Rightarrow> js_error + (string \<times> Trend) list" where
  "calculateFileTrends = file_trends calculateFileAvgScore"


section \<open>The accordion of sections\<close>

text \<open>
  \<open>SectionAccordion\<close> maps every entry of \<open>sections\<close> to an accordion item, or to
  \<open>null\<close> (here \<open>None\<close>) when the entry has no files; a \<open>null\<close> child renders
  nothing.  An item shows the section name, the number of files, the average score, the
  change of the average, and the table of the files.
\<close>

record AccordionItem =
  item_section :: string
  item_count :: nat
  sectionAvgScore :: jsval
  sectionScoreChange :: jsval
  item_files :: "FileInfo list"

definition section_avg_score :: "FileInfo list \<Rightarrow> jsval" where
  "section_avg_score fs =
     Math_round (js_div_len (foldl (\<lambda>sum file. js_add sum (score file)) (Num 0) fs) (length fs))"

definition section_avg_prev_score :: "FileInfo list \<Rightarrow> jsval" where
  "section_avg_prev_score fs =
     Math_round
       (js_div_len
          (foldl (\<lambda>sum file. js_add sum (js_or (previousScore file) (score file))) (Num 0) fs)
          (length fs))"

definition accordion_item :: "string \<times> FileInfo list \<Rightarrow> AccordionItem option" where
  "accordion_item entry =
     (case entry of (section, fs) \<Rightarrow>
        if length fs = 0 then None
        else
          let avgScore = section_avg_score fs;
              avgPrevScore = section_avg_prev_score fs
          in Some \<lparr>item_section = section,
                   item_count = length fs,
                   sectionAvgScore = avgScore,
                   sectionScoreChange = js_sub avgScore avgPrevScore,
                   item_files = fs\<rparr>)"

definition SectionAccordion :: "(string \<times> FileInfo list) list \<Rightarrow> AccordionItem option list" where
  "SectionAccordion sections = map accordion_item sections"

section \<open>Notions used to state the properties\<close>

text \<open>The files of a run, component after component; the paths of the run before the
  latest; the scores recorded for them; and the objects built for the files of the
  latest run, in the order the loops meet them.\<close>

definition all_files :: "HealthHistoryEntry \<Rightarrow> FileMetrics list" where
  "all_files entry = concat (map files (components (results entry)))"

definition previous_files :: "HealthHistoryEntry list \<Rightarrow> FileMetrics list" where
  "previous_files healthHistory =
     (case previous_entry healthHistory of None \<Rightarrow> [] | Some entry \<Rightarrow> all_files entry)"

definition previous_scores ::
  "(FileMetrics \<Rightarrow> jsval) \<Rightarrow> HealthHistoryEntry list \<Rightarrow> (string \<times> jsval) list" where
  "previous_scores avg healthHistory = record_previous avg [] (previous_files healthHistory)"

definition latest_infos ::
  "(FileMetrics \<Rightarrow> jsval) \<Rightarrow> HealthHistoryEntry list \<Rightarrow> FileInfo list" where
  "latest_infos avg healthHistory =
     concat (map (\<lambda>compo. map (make_file_info avg (previous_scores avg healthHistory) compo)
                            (files compo))
               (components (results (latest_entry healthHistory))))"

definition labels :: "string list" where
  "labels = [''Pages'', ''Components'', ''UI Files'', ''API Files'', ''Other'']"

text \<open>A file all of whose six scores are finite numbers.\<close>

definition numeric_scores :: "FileMetrics \<Rightarrow> bool" where
  "numeric_scores file =
     (is_number (size_score file) \<and> is_number (complexity_score file)
      \<and> is_number (duplication_score file) \<and> is_number (function_length_score file)
      \<and> is_number (comment_density_score file) \<and> is_number (naming_convention_score file))"

section \<open>Example data\<close>

text \<open>A file whose six scores are all \<open>q\<close>, a run of one component, and a history of
  two runs: \<open>ui/pages/A.tsx\<close> goes from 80 to 90, \<open>ui/pages/B.tsx\<close> from 0 to 50, and
  two files are new in the second run.\<close>

definition example_file :: "string \<Rightarrow> rat \<Rightarrow> FileMetrics" where
  "example_file path q =
     \<lparr>filepath = path, size_score = Num q, complexity_score = Num q,
      duplication_score = Num q, function_length_score = Num q,
      comment_density_score = Num q, naming_convention_score = Num q, issues = []\<rparr>"

definition example_entry :: "FileMetrics list \<Rightarrow> HealthHistoryEntry" where
  "example_entry fs =
     \<lparr>timestamp = Num 0, date = ''2025-01-01'',
      results = \<lparr>overall_score = Num 0,
                 components = [\<lparr>name = ''UI'', comp_score = Num 0, files = fs,
                                comp_issues = []\<rparr>],
                 recommendations = []\<rparr>\<rparr>"


definition example_previous_files :: "FileMetrics list" where
  "example_previous_files =
     [example_file ''ui/pages/A.tsx'' 80, example_file ''ui/pages/B.tsx'' 0]"

definition example_latest_files :: "FileMetrics list" where
  "example_latest_files =
     [example_file ''ui/pages/A.tsx'' 90, example_file ''ui/pages/B.tsx'' 50,
      example_file ''app/apis/c/__init__.py'' 10, example_file ''ui/pages/C.tsx'' 30]"

definition example_history :: "HealthHistoryEntry list" where
  "example_history = [example_entry example_previous_files, example_entry example_latest_files]"

text \<open>The grouped files of the example history, as the history page passes them to
  the accordion.\<close>

definition example_sections :: "(string \<times> FileInfo list) list" where
  "example_sections =
     (case getFilesGroupedByType_history example_history of
        Inl e \<Rightarrow> []
      | Inr allFiles \<Rightarrow> allFiles)"

definition example_info :: "string \<Rightarrow> rat \<Rightarrow> rat \<Rightarrow> FileInfo" where
  "example_info path a b =
     \<lparr>out_filepath = path, score = Num a, previousScore = Num b, scoreChange = Num (a - b),
      out_issues = [], details = details_of (example_file path a), component = ''UI''\<rparr>"



text \<open>No file of the history has a path that is the name of an inherited
  property.\<close>

definition no_inherited_paths :: "HealthHistoryEntry list \<Rightarrow> bool" where
  "no_inherited_paths healthHistory =
     list_all (\<lambda>entry. list_all (\<lambda>file. \<not> inherited (filepath file)) (all_files entry))
       healthHistory"

section \<open>The operations over an explicit store\<close>

text \<open>
  To speak of what the operations modify, the arrays and the objects used as
  dictionaries are placed in a store, and a variable that holds one holds its address.
  The history is an array of entries, the \<open>components\<close> of an entry and the \<open>files\<close>
  of a component are arrays, and so are the arrays the operations build; \<open>{}\<close>,
  \<open>[]\<close>, \<open>map\<close> and \<open>flatMap\<close> allocate, and a property assignment, \<open>push\<close> and
  \<open>sort\<close> overwrite the cell of the object they are called on.  No statement of the
  operations assigns to a property of a file, of a component or of an entry, or calls a
  method on an \<open>issues\<close> array, so these stay values.  A loop reads the array it
  walks once, at its start.
\<close>

type_synonym addr = nat

record ComponentRef =
  ref_name :: string
  ref_score :: jsval
  ref_files :: addr
  ref_issues :: "string list"

record EntryRef =
  ref_timestamp :: jsval
  ref_date :: string
  ref_overall_score :: jsval
  ref_components :: addr
  ref_recommendations :: "string list"

datatype cell =
    FileArray "FileMetrics list"
  | ComponentArray "ComponentRef list"
  | EntryArray "EntryRef list"
  | ProcessedArray "ProcessedFile list"
  | InfoArray "FileInfo list"
  | ScoreArray "jsval list"
  | NumDict "(string \<times> jsval) list"
  | RefDict "(string \<times> addr) list"
  | TrendDict "(string \<times> Trend) list"

record store =
  cells :: "addr \<Rightarrow> cell option"
  next_addr :: addr

definition alloc :: "cell \<Rightarrow> store \<Rightarrow> addr \<times> store" where
  "alloc c s =
     (next_addr s, s\<lparr>cells := (cells s)(next_addr s \<mapsto> c), next_addr := Suc (next_addr s)\<rparr>)"

definition overwrite :: "addr \<Rightarrow> cell \<Rightarrow> store \<Rightarrow> store" where
  "overwrite a c s = s\<lparr>cells := (cells s)(a \<mapsto> c)\<rparr>"

definition files_at :: "store \<Rightarrow> addr \<Rightarrow> FileMetrics list" where
  "files_at s a = (case cells s a of Some (FileArray xs) \<Rightarrow> xs | _ \<Rightarrow> [])"

definition comps_at :: "store \<Rightarrow> addr \<Rightarrow> ComponentRef list" where
  "comps_at s a = (case cells s a of Some (ComponentArray xs) \<Rightarrow> xs | _ \<Rightarrow> [])"

definition entries_at :: "store \<Rightarrow> addr \<Rightarrow> EntryRef list" where
  "entries_at s a = (case cells s a of Some (EntryArray xs) \<Rightarrow> xs | _ \<Rightarrow> [])"

definition processed_at :: "store \<Rightarrow> addr \<Rightarrow> ProcessedFile list" where
  "processed_at s a = (case cells s a of Some (ProcessedArray xs) \<Rightarrow> xs | _ \<Rightarrow> [])"

definition infos_at :: "store \<Rightarrow> addr \<Rightarrow> FileInfo list" where
  "infos_at s a = (case cells s a of Some (InfoArray xs) \<Rightarrow> xs | _ \<Rightarrow> [])"

definition scores_at :: "store \<Rightarrow> addr \<Rightarrow> jsval list" where
  "scores_at s a = (case cells s a of Some (ScoreArray xs) \<Rightarrow> xs | _ \<Rightarrow> [])"

definition nums_at :: "store \<Rightarrow> addr \<Rightarrow> (string \<times> jsval) list" where
  "nums_at s a = (case cells s a of Some (NumDict d) \<Rightarrow> d | _ \<Rightarrow> [])"

definition refs_at :: "store \<Rightarrow> addr \<Rightarrow> (string \<times> addr) list" where
  "refs_at s a = (case cells s a of Some (RefDict d) \<Rightarrow> d | _ \<Rightarrow> [])"

definition trends_at :: "store \<Rightarrow> addr \<Rightarrow> (string \<times> Trend) list" where
  "trends_at s a = (case cells s a of Some (TrendDict d) \<Rightarrow> d | _ \<Rightarrow> [])"

text \<open>\<open>processFilesData\<close>: \<open>previousScores\<close> is a new object, filled by the first
  loop; the result of \<open>map\<close> is a new array.\<close>

definition processFilesData_st :: "addr \<Rightarrow> addr option \<Rightarrow> store \<Rightarrow> addr \<times> store" where
  "processFilesData_st currentFiles previousFiles s0 =
     (let (previousScores, s1) = alloc (NumDict []) s0;
          s2 = (case previousFiles of
                  None \<Rightarrow> s1
                | Some pf \<Rightarrow>
                    foldl (\<lambda>s file.
                             overwrite previousScores
                               (NumDict (obj_put (filepath file) (calculateFileAvgScore file)
                                           (nums_at s previousScores))) s)
                      s1 (files_at s1 pf))
      in alloc (ProcessedArray
                  (map (process_file (nums_at s2 previousScores)) (files_at s2 currentFiles)))
           s2)"

text \<open>\<open>getFilesGroupedByType\<close> of the history page.  The object \<open>allFiles\<close> and its
  five arrays are new; \<open>previousFiles\<close> is the new array \<open>flatMap\<close> returns (or a new
  \<open>[]\<close>); every component contributes the array \<open>processFilesData\<close> returns and the
  array \<open>map\<close> makes of it, and \<open>flatMap\<close> gathers them in \<open>processedFiles\<close>.  Then
  every processed file is pushed on the array of its category, and every array is
  sorted in place.  The steps are defined one by one: the literal of \<open>allFiles\<close>,
  \<open>previousFiles\<close>, \<open>processedFiles\<close>, and the two last loops.\<close>

definition process_component ::
  "addr \<Rightarrow> FileInfo list \<times> store \<Rightarrow> ComponentRef \<Rightarrow> FileInfo list \<times> store" where
  "process_component previousFiles acc compo =
     (case acc of (collected, s) \<Rightarrow>
        let (processed, s1) = processFilesData_st (ref_files compo) (Some previousFiles) s;
            (mapped, s2) =
              alloc (InfoArray
                       (map (\<lambda>fileInfo. ProcessedFile.extend fileInfo
                                          \<lparr>component = ref_name compo\<rparr>)
                          (processed_at s1 processed)))
                s1
        in (collected @ infos_at s2 mapped, s2))"

definition push_info :: "addr \<Rightarrow> store \<Rightarrow> FileInfo \<Rightarrow> js_error + store" where
  "push_info allFiles s fileInfo =
     (case map_of (refs_at s allFiles) (categorizeFileByPath (out_filepath fileInfo)) of
        None \<Rightarrow> Inl TypeError
      | Some arr \<Rightarrow> Inr (overwrite arr (InfoArray (infos_at s arr @ [fileInfo])) s))"

definition sort_bucket :: "addr \<Rightarrow> store \<Rightarrow> string \<Rightarrow> store" where
  "sort_bucket allFiles s key =
     (case map_of (refs_at s allFiles) key of
        None \<Rightarrow> s
      | Some arr \<Rightarrow> overwrite arr (InfoArray (js_sort by_score (infos_at s arr))) s)"

definition new_allFiles :: "store \<Rightarrow> addr \<times> store" where
  "new_allFiles s0 =
     (let (pages, s1) = alloc (InfoArray []) s0;
          (comps, s2) = alloc (InfoArray []) s1;
          (uiFiles, s3) = alloc (InfoArray []) s2;
          (apiFiles, s4) = alloc (InfoArray []) s3;
          (other, s5) = alloc (InfoArray []) s4
      in alloc (RefDict [(''Pages'', pages), (''Components'', comps), (''UI Files'', uiFiles),
                         (''API Files'', apiFiles), (''Other'', other)]) s5)"

definition previous_files_st :: "EntryRef option \<Rightarrow> store \<Rightarrow> addr \<times> store" where
  "previous_files_st previousEntry s =
     alloc (FileArray
              (case previousEntry of
                 None \<Rightarrow> []
               | Some entry \<Rightarrow>
                   concat (map (\<lambda>compo. files_at s (ref_files compo))
                             (comps_at s (ref_components entry)))))
       s"

definition processed_files_st :: "addr \<Rightarrow> EntryRef \<Rightarrow> store \<Rightarrow> addr \<times> store" where
  "processed_files_st previousFiles latestEntry s =
     (let (collected, s') =
            foldl (process_component previousFiles) ([], s)
              (comps_at s (ref_components latestEntry))
      in alloc (InfoArray collected) s')"

definition group_and_sort :: "addr \<Rightarrow> addr \<Rightarrow> store \<Rightarrow> js_error + addr \<times> store" where
  "group_and_sort allFiles processedFiles s =
     (case forEach_err (push_info allFiles) (infos_at s processedFiles) s of
        Inl e \<Rightarrow> Inl e
      | Inr s' \<Rightarrow>
          Inr (allFiles, foldl (sort_bucket allFiles) s' (map fst (refs_at s' allFiles))))"

definition getFilesGroupedByType_st :: "addr \<Rightarrow> store \<Rightarrow> js_error + addr \<times> store" where
  "getFilesGroupedByType_st healthHistory s0 =
     (let entries = entries_at s0 healthHistory in
      if length entries = 0 then Inr (alloc (RefDict []) s0)
      else
        let latestEntry = entries ! (length entries - 1);
            previousEntry =
              (if length entries > 1 then Some (entries ! (length entries - 2)) else None);
            (allFiles, s1) = new_allFiles s0;
            (previousFiles, s2) = previous_files_st previousEntry s1;
            (processedFiles, s3) = processed_files_st previousFiles latestEntry s2
        in group_and_sort allFiles processedFiles s3)"

text \<open>\<open>calculateFileTrends\<close> of the page.  \<open>fileScores\<close> is a new object whose
  values are new arrays, one for each path; \<open>fileTrends\<close> is a new object.  The body
  of the innermost loop is \<open>ensure_array\<close>, the conditional assignment of \<open>[]\<close>,
  followed by \<open>push_score\<close>, which finds the array the assignment has put there, or
  throws on an inherited value.  An error comes with the store at the moment it is
  thrown, and \<open>forEach_st\<close> runs a loop whose body can throw.\<close>

definition ensure_array :: "addr \<Rightarrow> string \<Rightarrow> store \<Rightarrow> store" where
  "ensure_array fileScores path s =
     (case obj_get (refs_at s fileScores) path of
        Absent \<Rightarrow>
          (let (arr, s') = alloc (ScoreArray []) s
           in overwrite fileScores (RefDict (obj_put path arr (refs_at s' fileScores))) s')
      | _ \<Rightarrow> s)"

definition push_score :: "addr \<Rightarrow> string \<Rightarrow> jsval \<Rightarrow> store \<Rightarrow> js_error \<times> store + store" where
  "push_score fileScores path v s =
     (case obj_get (refs_at s fileScores) path of
        Own arr \<Rightarrow> Inr (overwrite arr (ScoreArray (scores_at s arr @ [v])) s)
      | _ \<Rightarrow> Inl (TypeError, s))"

definition observe_st :: "addr \<Rightarrow> store \<Rightarrow> FileMetrics \<Rightarrow> js_error \<times> store + store" where
  "observe_st fileScores s file =
     push_score fileScores (filepath file) (calculateFileAvgScore file)
       (ensure_array fileScores (filepath file) s)"

fun forEach_st ::
  "(store \<Rightarrow> 'a \<Rightarrow> js_error \<times> store + store) \<Rightarrow> 'a list \<Rightarrow> store
    \<Rightarrow> js_error \<times> store + store" where
  "forEach_st body [] s = Inr s"
| "forEach_st body (x # xs) s =
     (case body s x of
        Inl e \<Rightarrow> Inl e
      | Inr s' \<Rightarrow> forEach_st body xs s')"

definition add_trend_st :: "addr \<Rightarrow> addr \<Rightarrow> store \<Rightarrow> string \<Rightarrow> store" where
  "add_trend_st fileScores fileTrends s path =
     (let scores = (case map_of (refs_at s fileScores) path of
                      None \<Rightarrow> []
                    | Some arr \<Rightarrow> scores_at s arr)
      in if length scores > 1 then
           let firstScore = scores ! 0;
               latestScore = scores ! (length scores - 1);
               change = js_sub latestScore firstScore
           in overwrite fileTrends
                (TrendDict (obj_put path \<lparr>trend = trend_of change, change = change\<rparr>
                              (trends_at s fileTrends))) s
         else s)"

definition collect_scores_st :: "addr \<Rightarrow> EntryRef list \<Rightarrow> store \<Rightarrow> js_error \<times> store + store" where
  "collect_scores_st fileScores entries s0 =
     forEach_st
       (\<lambda>s entry.
          forEach_st
            (\<lambda>s compo. forEach_st (observe_st fileScores) (files_at s (ref_files compo)) s)
            (comps_at s (ref_components entry)) s)
       entries s0"

definition calculateFileTrends_st :: "addr \<Rightarrow> store \<Rightarrow> js_error \<times> store + addr \<times> store" where
  "calculateFileTrends_st healthHistory s0 =
     (let entries = entries_at s0 healthHistory in
      if length entries \<le> 1 then Inr (alloc (TrendDict []) s0)
      else
        let (fileScores, s1) = alloc (RefDict []) s0
        in case collect_scores_st fileScores entries s1 of
             Inl e \<Rightarrow> Inl e
           | Inr s2 \<Rightarrow>
               let (fileTrends, s3) = alloc (TrendDict []) s2
               in Inr (fileTrends,
                       foldl (add_trend_st fileScores fileTrends) s3
                         (map fst (refs_at s3 fileScores))))"

text \<open>What a store holds at the address of a history, as the value the operations
  without a store take; the buckets behind the address of \<open>allFiles\<close>; a history all
  of whose arrays are allocated; and a store that agrees with an earlier one on every
  address the earlier one had allocated.\<close>

definition components_of :: "store \<Rightarrow> addr \<Rightarrow> ComponentResult list" where
  "components_of s a =
     map (\<lambda>compo. \<lparr>name = ref_name compo, comp_score = ref_score compo,
                    files = files_at s (ref_files compo), comp_issues = ref_issues compo\<rparr>)
       (comps_at s a)"

definition history_of :: "store \<Rightarrow> addr \<Rightarrow> HealthHistoryEntry list" where
  "history_of s a =
     map (\<lambda>entry. \<lparr>timestamp = ref_timestamp entry, date = ref_date entry,
                    results = \<lparr>overall_score = ref_overall_score entry,
                               components = components_of s (ref_components entry),
                               recommendations = ref_recommendations entry\<rparr>\<rparr>)
       (entries_at s a)"

definition buckets_of :: "store \<Rightarrow> addr \<Rightarrow> (string \<times> FileInfo list) list" where
  "buckets_of s a = map (\<lambda>(key, arr). (key, infos_at s arr)) (refs_at s a)"

definition history_allocated :: "store \<Rightarrow> addr \<Rightarrow> bool" where
  "history_allocated s a =
     (a < next_addr s
      \<and> list_all (\<lambda>entry. ref_components entry < next_addr s
                     \<and> list_all (\<lambda>compo. ref_files compo < next_addr s)
                          (comps_at s (ref_components entry)))
          (entries_at s a))"

definition unchanged :: "store \<Rightarrow> store \<Rightarrow> bool" where
  "unchanged s s' =
     (next_addr s \<le> next_addr s' \<and> (\<forall>a < next_addr s. cells s' a = cells s a))"

text \<open>The object \<open>fileScores\<close> of a store \<open>s\<close>, allocated after the store \<open>s0\<close>
  the operation started from: it maps paths to arrays allocated after \<open>s0\<close> too, no
  two paths to the same array, and read through these arrays it is the list
  \<open>fileScores\<close> of the operation without a store.\<close>

definition fileScores_rep ::
  "store \<Rightarrow> addr \<Rightarrow> store \<Rightarrow> (string \<times> jsval list) list \<Rightarrow> bool" where
  "fileScores_rep s0 fileScores s rep =
     (unchanged s0 s \<and> next_addr s0 \<le> fileScores \<and> fileScores < next_addr s
      \<and> (\<exists>kas. cells s fileScores = Some (RefDict kas)
             \<and> distinct (map fst kas) \<and> distinct (map snd kas)
             \<and> fileScores \<notin> snd ` set kas
             \<and> (\<forall>a \<in> snd ` set kas. next_addr s0 \<le> a \<and> a < next_addr s)
             \<and> map (\<lambda>(k, a). (k, scores_at s a)) kas = rep))"

text \<open>The outcome of a loop of \<open>calculateFileTrends\<close> run in a store, against the
  outcome of the same loop without a store: both return, and the store represents the
  object returned; or both throw the same error, and the store at that moment agrees
  with the store the operation started from.\<close>

definition fileScores_outcome ::
  "store \<Rightarrow> addr \<Rightarrow> js_error \<times> store + store
    \<Rightarrow> js_error + (string \<times> jsval list) list \<Rightarrow> bool" where
  "fileScores_outcome s0 fileScores out rep =
     (case out of
        Inr s \<Rightarrow> (\<exists>F. rep = Inr F \<and> fileScores_rep s0 fileScores s F)
      | Inl (e, s) \<Rightarrow> rep = Inl e \<and> unchanged s0 s)"

text \<open>Two stores that hold the example history, at different addresses.\<close>

definition example_component :: "addr \<Rightarrow> ComponentRef" where
  "example_component a = \<lparr>ref_name = ''UI'', ref_score = Num 0, ref_files = a, ref_issues = []\<rparr>"

definition example_entry_ref :: "addr \<Rightarrow> EntryRef" where
  "example_entry_ref a =
     \<lparr>ref_timestamp = Num 0, ref_date = ''2025-01-01'', ref_overall_score = Num 0,
      ref_components = a, ref_recommendations = []\<rparr>"

definition example_store :: store where
  "example_store =
     \<lparr>cells = Map.empty
        (0 \<mapsto> FileArray example_previous_files,
         1 \<mapsto> ComponentArray [example_component 0],
         2 \<mapsto> FileArray example_latest_files,
         3 \<mapsto> ComponentArray [example_component 2],
         4 \<mapsto> EntryArray [example_entry_ref 1, example_entry_ref 3]),
      next_addr = 5\<rparr>"

definition example_store' :: store where
  "example_store' =
     \<lparr>cells = Map.empty
        (0 \<mapsto> EntryArray [example_entry_ref 4, example_entry_ref 2],
         1 \<mapsto> FileArray example_latest_files,
         2 \<mapsto> ComponentArray [example_component 1],
         3 \<mapsto> ScoreArray [Num 1],
         4 \<mapsto> ComponentArray [example_component 5],
         5 \<mapsto> FileArray example_previous_files),
      next_addr = 6\<rparr>"

section \<open>Reading and writing a dictionary\<close>

lemmas obj_defs = obj_num_def obj_get_def obj_put_def inherited_def Object_prototype_keys_def

lemma map_of_obj_set: "map_of (obj_set k v kvs) = (map_of kvs)(k \<mapsto> v)"
  by (induction kvs) (auto simp: fun_eq_iff)

lemma map_of_obj_put:
  "map_of (obj_put k v kvs) = (if k = ''__proto__'' then map_of kvs else (map_of kvs)(k \<mapsto> v))"
  by (simp add: obj_put_def map_of_obj_set)

lemma inherited_proto: "inherited ''__proto__''"
  by (simp add: inherited_def Object_prototype_keys_def)

section \<open>Properties of the composite score\<close>

lemma floor_rat_numeral_div [simp]:
  "\<lfloor>(numeral a :: rat) / numeral b\<rfloor> = numeral a div numeral b"
  using floor_divide_of_int_eq [of "numeral a" "numeral b", where ?'a = rat] by simp

lemma floor_rat_one_div_numeral [simp]:
  "\<lfloor>(1::rat) / numeral b\<rfloor> = 1 div numeral b"
  using floor_divide_of_int_eq [of 1 "numeral b", where ?'a = rat] by simp

lemma round_sixth_bounds:
  fixes s :: int
  assumes "0 \<le> s" and "s \<le> 600"
  shows "0 \<le> round (of_int s / (6::rat))" and "round (of_int s / (6::rat)) \<le> 100"
proof -
  have "round (0::rat) \<le> round (of_int s / (6::rat))"
    by (rule round_mono) (use assms in simp)
  then show "0 \<le> round (of_int s / (6::rat))" by simp
  have "round (of_int s / (6::rat)) \<le> round (100::rat)"
    by (rule round_mono) (use assms in simp)
  then show "round (of_int s / (6::rat)) \<le> 100" by simp
qed

text \<open>
  C1.  When the six sub-scores of a file are integers between 0 and 100, the composite
  score is the sum of the six divided by six and rounded to the nearest integer, and
  it is itself an integer between 0 and 100.
\<close>

theorem calculateFileAvgScore_round_mean:
  fixes a b c d e g :: int
  assumes "size_score file = Num (of_int a)" and "0 \<le> a" and "a \<le> 100"
    and "complexity_score file = Num (of_int b)" and "0 \<le> b" and "b \<le> 100"
    and "duplication_score file = Num (of_int c)" and "0 \<le> c" and "c \<le> 100"
    and "function_length_score file = Num (of_int d)" and "0 \<le> d" and "d \<le> 100"
    and "comment_density_score file = Num (of_int e)" and "0 \<le> e" and "e \<le> 100"
    and "naming_convention_score file = Num (of_int g)" and "0 \<le> g" and "g \<le> 100"
  shows "calculateFileAvgScore file
           = Num (of_int (round (of_int (a + b + c + d + e + g) / (6::rat))))
         \<and> 0 \<le> round (of_int (a + b + c + d + e + g) / (6::rat))
         \<and> round (of_int (a + b + c + d + e + g) / (6::rat)) \<le> 100"
proof -
  have "calculateFileAvgScore file
          = Num (of_int (round (of_int (a + b + c + d + e + g) / (6::rat))))"
    using assms by (simp add: calculateFileAvgScore_def round_def)
  moreover have "0 \<le> a + b + c + d + e + g" and "a + b + c + d + e + g \<le> 600"
    using assms by simp_all
  ultimately show ?thesis
    using round_sixth_bounds by blast
qed

theorem calculateFileAvgScore_round_mean_witness:
  "calculateFileAvgScore
     \<lparr>filepath = ''ui/pages/A.tsx'', size_score = Num 100, complexity_score = Num 100,
       duplication_score = Num 100, function_length_score = Num 100,
       comment_density_score = Num 100, naming_convention_score = Num 99, issues = []\<rparr>
   = Num 100"
  using calculateFileAvgScore_round_mean
    [of "\<lparr>filepath = ''ui/pages/A.tsx'', size_score = Num 100, complexity_score = Num 100,
       duplication_score = Num 100, function_length_score = Num 100,
       comment_density_score = Num 100, naming_convention_score = Num 99, issues = []\<rparr>"
      100 100 100 100 100 99]
  by (simp add: round_def)

section \<open>Properties of the category of a path\<close>

lemmas regex_defs = re_apis_init_def re_apis_py_def re_api_segment_def lits_def

lemma starts_with_iff: "starts_with s p \<longleftrightarrow> (\<exists>v. s = p @ v)"
  by (induction s p rule: starts_with.induct) auto

lemma js_includes_iff: "js_includes s p \<longleftrightarrow> (\<exists>u v. s = u @ p @ v)"
proof (induction s)
  case Nil
  then show ?case by (cases p) (auto simp: starts_with_iff)
next
  case (Cons c cs)
  show ?case
  proof
    assume "js_includes (c # cs) p"
    then consider "starts_with (c # cs) p" | "js_includes cs p" by auto
    then show "\<exists>u v. c # cs = u @ p @ v"
    proof cases
      case 1
      then obtain v where "c # cs = p @ v" by (auto simp: starts_with_iff)
      then have "c # cs = [] @ p @ v" by simp
      then show ?thesis by blast
    next
      case 2
      with Cons.IH obtain u v where "cs = u @ p @ v" by blast
      then have "c # cs = (c # u) @ p @ v" by simp
      then show ?thesis by blast
    qed
  next
    assume "\<exists>u v. c # cs = u @ p @ v"
    then obtain u v where uv: "c # cs = u @ p @ v" by blast
    show "js_includes (c # cs) p"
    proof (cases u)
      case Nil
      with uv have "starts_with (c # cs) p" by (auto simp: starts_with_iff)
      then show ?thesis by simp
    next
      case (Cons d u')
      with uv have "cs = u' @ p @ v" by simp
      with Cons.IH show ?thesis by auto
    qed
  qed
qed

lemma match_here_lits: "match_here (lits l @ r) s \<Longrightarrow> starts_with s l"
proof (induction l arbitrary: s)
  case Nil
  then show ?case by simp
next
  case (Cons a l)
  then show ?case by (cases s) (auto simp: lits_def)
qed

lemma starts_with_includes: "starts_with s p \<Longrightarrow> js_includes s p"
  by (cases s) auto

lemma js_match_lits: "js_match s (lits l @ r) \<Longrightarrow> js_includes s l"
proof (induction s)
  case Nil
  then show ?case using match_here_lits [of l r "[]"] by simp
next
  case (Cons c cs)
  then show ?case using match_here_lits [of l r "c # cs"] by auto
qed

text \<open>Five of the seven API patterns contain \<open>apis/\<close>, the two regular expressions
  with a dot among them: the test comes down to three patterns, and the category of a
  path does not depend on what the dot matches.\<close>

lemma is_api_path_iff:
  "is_api_path p \<longleftrightarrow>
     js_includes p ''apis/'' \<or> js_match p re_api_segment \<or> js_includes p ''/api/''"
proof -
  have a: "js_includes p ''app/apis/'' \<Longrightarrow> js_includes p ''apis/''"
    by (auto simp: js_includes_iff) (metis append.assoc append_Cons append_Nil)
  have b: "js_includes p ''src/app/apis/'' \<Longrightarrow> js_includes p ''apis/''"
    by (auto simp: js_includes_iff) (metis append.assoc append_Cons append_Nil)
  have c: "js_match p re_apis_init \<Longrightarrow> js_includes p ''apis/''"
    unfolding re_apis_init_def by (rule js_match_lits)
  have d: "js_match p re_apis_py \<Longrightarrow> js_includes p ''apis/''"
    unfolding re_apis_py_def by (rule js_match_lits)
  show ?thesis
    unfolding is_api_path_def using a b c d by blast
qed

text \<open>A path that does not begin with a slash is tested as it is.\<close>

lemma strip_leading_slashes_id:
  "\<not> starts_with path ''/'' \<Longrightarrow> strip_leading_slashes path = path"
  by (cases path) (auto simp: strip_leading_slashes_def)

text \<open>
  C2 (as amended).  Every copy of \<open>categorizeFileByPath\<close> returns one of the five
  labels.  The copy that tests the API patterns first removes the leading slashes and
  tests every pattern on the path so normalised: a normalised path that matches an API
  pattern is an API file, whatever else it contains; otherwise \<open>/pages/\<close> gives
  Pages, then \<open>/components/\<close> Components, then \<open>/utils/\<close> or \<open>/src/utils/\<close> UI
  Files, and Other is the default.  The copy of the utilities module tests the path as
  given, \<open>/pages/\<close>, \<open>/components/\<close> and the utilities patterns before \<open>/apis/\<close>
  and \<open>/api/\<close>.
\<close>

theorem categorizeFileByPath_total_api_first:
  "categorizeFileByPath_api_first path
     \<in> {''Pages'', ''Components'', ''UI Files'', ''API Files'', ''Other''}
   \<and> (is_api_path (strip_leading_slashes path)
        \<longrightarrow> categorizeFileByPath_api_first path = ''API Files'')
   \<and> (\<not> is_api_path (strip_leading_slashes path)
        \<and> js_includes (strip_leading_slashes path) ''/pages/''
        \<longrightarrow> categorizeFileByPath_api_first path = ''Pages'')
   \<and> (\<not> is_api_path (strip_leading_slashes path)
        \<and> \<not> js_includes (strip_leading_slashes path) ''/pages/''
        \<and> js_includes (strip_leading_slashes path) ''/components/''
        \<longrightarrow> categorizeFileByPath_api_first path = ''Components'')
   \<and> (\<not> is_api_path (strip_leading_slashes path)
        \<and> \<not> js_includes (strip_leading_slashes path) ''/pages/''
        \<and> \<not> js_includes (strip_leading_slashes path) ''/components/''
        \<and> (js_includes (strip_leading_slashes path) ''/utils/''
             \<or> js_includes (strip_leading_slashes path) ''/src/utils/'')
        \<longrightarrow> categorizeFileByPath_api_first path = ''UI Files'')
   \<and> (\<not> is_api_path (strip_leading_slashes path)
        \<and> \<not> js_includes (strip_leading_slashes path) ''/pages/''
        \<and> \<not> js_includes (strip_leading_slashes path) ''/components/''
        \<and> \<not> js_includes (strip_leading_slashes path) ''/utils/''
        \<and> \<not> js_includes (strip_leading_slashes path) ''/src/utils/''
        \<longrightarrow> categorizeFileByPath_api_first path = ''Other'')
   \<and> categorizeFileByPath path
     \<in> {''Pages'', ''Components'', ''UI Files'', ''API Files'', ''Other''}
   \<and> (js_includes path ''/pages/'' \<longrightarrow> categorizeFileByPath path = ''Pages'')
   \<and> (\<not> js_includes path ''/pages/'' \<and> js_includes path ''/components/''
        \<longrightarrow> categorizeFileByPath path = ''Components'')
   \<and> (\<not> js_includes path ''/pages/'' \<and> \<not> js_includes path ''/components/''
        \<and> (js_includes path ''/utils/'' \<or> js_includes path ''/src/utils/'')
        \<longrightarrow> categorizeFileByPath path = ''UI Files'')
   \<and> (\<not> js_includes path ''/pages/'' \<and> \<not> js_includes path ''/components/''
        \<and> \<not> js_includes path ''/utils/'' \<and> \<not> js_includes path ''/src/utils/''
        \<and> (js_includes path ''/apis/'' \<or> js_includes path ''/api/'')
        \<longrightarrow> categorizeFileByPath path = ''API Files'')
   \<and> (\<not> js_includes path ''/pages/'' \<and> \<not> js_includes path ''/components/''
        \<and> \<not> js_includes path ''/utils/'' \<and> \<not> js_includes path ''/src/utils/''
        \<and> \<not> js_includes path ''/apis/'' \<and> \<not> js_includes path ''/api/''
        \<longrightarrow> categorizeFileByPath path = ''Other'')"
  by (simp add: categorizeFileByPath_api_first_def categorizeFileByPath_def Let_def)

theorem categorizeFileByPath_total_api_first_witness:
  "is_api_path (strip_leading_slashes ''ui/api/pages/Home.tsx'')
   \<and> js_includes (strip_leading_slashes ''ui/api/pages/Home.tsx'') ''/pages/''
   \<and> categorizeFileByPath_api_first ''ui/api/pages/Home.tsx'' = ''API Files''
   \<and> categorizeFileByPath ''ui/api/pages/Home.tsx'' = ''Pages''"
proof -
  have api: "is_api_path (strip_leading_slashes ''ui/api/pages/Home.tsx'')"
    by (simp add: is_api_path_def strip_leading_slashes_def regex_defs)
  have pages: "js_includes ''ui/api/pages/Home.tsx'' ''/pages/''"
    by simp
  from categorizeFileByPath_total_api_first [of "''ui/api/pages/Home.tsx''"] api pages
  show ?thesis
    by (simp add: strip_leading_slashes_def)
qed

text \<open>
  The claim as first stated fails twice.  The path \<open>/pages/Home.tsx\<close> contains
  \<open>/pages/\<close> and no API pattern, and the API-first copy files it under Other, the
  leading slash being gone when the test is made.  The path \<open>ui/api/pages/Home.tsx\<close>
  contains the API pattern \<open>/api/\<close>, and the copy of the utilities module files it
  under Pages.
\<close>

theorem categorizeFileByPath_counterexample:
  "js_includes ''/pages/Home.tsx'' ''/pages/''
   \<and> \<not> is_api_path ''/pages/Home.tsx''
   \<and> categorizeFileByPath_api_first ''/pages/Home.tsx'' = ''Other''
   \<and> js_includes ''ui/api/pages/Home.tsx'' ''/api/''
   \<and> categorizeFileByPath ''ui/api/pages/Home.tsx'' = ''Pages''"
  by (simp add: categorizeFileByPath_api_first_def categorizeFileByPath_def
      is_api_path_def strip_leading_slashes_def regex_defs)

section \<open>Grouping: the loops\<close>

lemma push_to_distinct:
  "distinct (map fst s) \<Longrightarrow> k \<in> fst ` set s \<Longrightarrow>
   push_to s k x = Inr (map (\<lambda>(k', xs). (k', if k' = k then xs @ [x] else xs)) s)"
proof (induction s)
  case Nil
  then show ?case by simp
next
  case (Cons a s)
  obtain k' xs where a: "a = (k', xs)" by (cases a)
  show ?case
  proof (cases "k' = k")
    case True
    with Cons.prems a have "k \<notin> fst ` set s" by auto
    then have "map (\<lambda>(k', xs). (k', if k' = k then xs @ [x] else xs)) s = s"
      by (induction s) auto
    with True a show ?thesis by simp
  next
    case False
    with Cons a show ?thesis by auto
  qed
qed

lemma push_to_keys: "push_to s k x = Inr s' \<Longrightarrow> map fst s' = map fst s"
  by (induction s arbitrary: s') (auto split: if_splits sum.splits)

lemma forEach_err_append:
  "forEach_err body (xs @ ys) s =
     (case forEach_err body xs s of Inl e \<Rightarrow> Inl e | Inr s' \<Rightarrow> forEach_err body ys s')"
  by (induction xs arbitrary: s) (auto split: sum.splits)

lemma forEach_err_nested:
  "forEach_err (\<lambda>s c. forEach_err (body c) (inner c) s) cs s =
   forEach_err (\<lambda>s (c, x). body c s x) (concat (map (\<lambda>c. map (Pair c) (inner c)) cs)) s"
proof (induction cs arbitrary: s)
  case Nil
  then show ?case by simp
next
  case (Cons c cs)
  have inner: "forEach_err (\<lambda>s (c, x). body c s x) (map (Pair c) xs) s = forEach_err (body c) xs s"
    for xs s
    by (induction xs arbitrary: s) (auto split: sum.splits)
  show ?case
    by (simp add: forEach_err_append inner Cons.IH split: sum.splits)
qed

lemma forEach_push:
  "distinct (map fst s) \<Longrightarrow> \<forall>x \<in> set xs. key x \<in> fst ` set s \<Longrightarrow>
   forEach_err (\<lambda>s x. push_to s (key x) (val x)) xs s =
     Inr (map (\<lambda>(k, ys). (k, ys @ map val (filter (\<lambda>x. key x = k) xs))) s)"
proof (induction xs arbitrary: s)
  case Nil
  then show ?case by (simp add: case_prod_unfold)
next
  case (Cons x xs)
  let ?s' = "map (\<lambda>(k', ys). (k', if k' = key x then ys @ [val x] else ys)) s"
  have step: "push_to s (key x) (val x) = Inr ?s'"
    using Cons.prems by (simp add: push_to_distinct)
  have keys: "map fst ?s' = map fst s"
    using step by (rule push_to_keys)
  have d: "distinct (map fst ?s')"
    unfolding keys using Cons.prems by simp
  have m: "\<forall>y \<in> set xs. key y \<in> fst ` set ?s'"
    using Cons.prems keys by (metis list.set_intros(2) list.set_map)
  show ?case
    using Cons.IH [OF d m] step
    by (auto simp: case_prod_unfold comp_def)
qed

lemma record_previous_append:
  "record_previous avg acc (xs @ ys) = record_previous avg (record_previous avg acc xs) ys"
  by (simp add: record_previous_def)

lemma record_previous_nested:
  "foldl (\<lambda>scores compo. record_previous avg scores (files compo)) acc cs
     = record_previous avg acc (concat (map files cs))"
  by (induction cs arbitrary: acc) (simp_all add: record_previous_append, simp add: record_previous_def)

lemma previous_scores_loop:
  "(case previous_entry healthHistory of
      None \<Rightarrow> []
    | Some previousEntry \<Rightarrow>
        foldl (\<lambda>scores compo. record_previous avg scores (files compo)) []
          (components (results previousEntry)))
   = previous_scores avg healthHistory"
  by (simp add: previous_scores_def previous_files_def all_files_def record_previous_nested
      split: option.splits) (simp add: record_previous_def)

lemma out_filepath_make_file_info [simp]:
  "out_filepath (make_file_info avg prev compo file) = filepath file"
  by (simp add: make_file_info_def Let_def)

lemma latest_infos_pairs:
  "latest_infos avg healthHistory =
     map (\<lambda>(compo, file). make_file_info avg (previous_scores avg healthHistory) compo file)
       (concat (map (\<lambda>compo. map (Pair compo) (files compo))
                  (components (results (latest_entry healthHistory)))))"
  by (simp add: latest_infos_def map_concat comp_def)

lemma group_files_eq:
  assumes nonempty: "healthHistory \<noteq> []"
    and total: "\<And>p. categorize p \<in> set labels"
  shows "group_files avg categorize healthHistory =
     Inr (map (\<lambda>k. (k, js_sort by_score
                        (filter (\<lambda>fi. categorize (out_filepath fi) = k)
                           (latest_infos avg healthHistory))))
            labels)"
proof -
  let ?prev = "previous_scores avg healthHistory"
  let ?pairs = "concat (map (\<lambda>compo. map (Pair compo) (files compo))
                  (components (results (latest_entry healthHistory))))"
  let ?key = "\<lambda>(compo :: ComponentResult, file). categorize (filepath file)"
  let ?val = "\<lambda>(compo, file). make_file_info avg ?prev compo file"
  have loop: "forEach_err
                (\<lambda>allFiles compo.
                   forEach_err
                     (\<lambda>allFiles file.
                        push_to allFiles (categorize (filepath file))
                          (make_file_info avg ?prev compo file))
                     (files compo) allFiles)
                (components (results (latest_entry healthHistory))) allFiles_init
              = forEach_err (\<lambda>s x. push_to s (?key x) (?val x)) ?pairs allFiles_init"
    by (simp add: forEach_err_nested [where body = "\<lambda>compo allFiles file.
                        push_to allFiles (categorize (filepath file))
                          (make_file_info avg ?prev compo file)"] case_prod_unfold)
  have d: "distinct (map fst allFiles_init)"
    by (simp add: allFiles_init_def)
  have m: "\<forall>x \<in> set ?pairs. ?key x \<in> fst ` set allFiles_init"
    using total by (auto simp: allFiles_init_def labels_def)
  have pushed: "forEach_err (\<lambda>s x. push_to s (?key x) (?val x)) ?pairs allFiles_init
      = Inr (map (\<lambda>(k, ys). (k, ys @ map ?val (filter (\<lambda>x. ?key x = k) ?pairs))) allFiles_init)"
    using d m by (rule forEach_push)
  have bucket: "map ?val (filter (\<lambda>x. ?key x = k) ?pairs)
      = filter (\<lambda>fi. categorize (out_filepath fi) = k) (latest_infos avg healthHistory)" for k
    by (simp add: latest_infos_pairs filter_map comp_def case_prod_unfold)
  show ?thesis
    unfolding group_files_def Let_def previous_scores_loop loop pushed
    using nonempty
    by (simp add: bucket sort_each_def allFiles_init_def labels_def)
qed

section \<open>Grouping: the result\<close>

lemma categorizeFileByPath_labels: "categorizeFileByPath p \<in> set labels"
  by (simp add: categorizeFileByPath_def labels_def)

lemma categorizeFileByPath_page_labels: "categorizeFileByPath_page p \<in> set labels"
  by (simp add: categorizeFileByPath_page_def labels_def)

lemma categorizeFileByPath_api_first_labels: "categorizeFileByPath_api_first p \<in> set labels"
  by (simp add: categorizeFileByPath_api_first_def labels_def Let_def)

lemma extend_process_file:
  "ProcessedFile.extend (process_file prev file) \<lparr>component = name compo\<rparr>
     = make_file_info calculateFileAvgScore prev compo file"
  by (simp add: process_file_def make_file_info_def Let_def ProcessedFile.defs)

lemma processed_files_latest_infos:
  "concat (map (\<lambda>compo.
                  map (\<lambda>fileInfo. ProcessedFile.extend fileInfo \<lparr>component = name compo\<rparr>)
                    (processFilesData (files compo) (Some (previous_files healthHistory))))
             (components (results (latest_entry healthHistory))))
   = latest_infos calculateFileAvgScore healthHistory"
  by (simp add: processFilesData_def latest_infos_def previous_scores_def comp_def
      extend_process_file)

lemma getFilesGroupedByType_history_eq:
  assumes nonempty: "healthHistory \<noteq> []"
  shows "getFilesGroupedByType_history healthHistory =
     Inr (map (\<lambda>k. (k, js_sort by_score
                        (filter (\<lambda>fi. categorizeFileByPath (out_filepath fi) = k)
                           (latest_infos calculateFileAvgScore healthHistory))))
            labels)"
proof -
  let ?infos = "latest_infos calculateFileAvgScore healthHistory"
  have prev: "(case previous_entry healthHistory of
                 None \<Rightarrow> []
               | Some previousEntry \<Rightarrow> concat (map files (components (results previousEntry))))
              = previous_files healthHistory"
    by (simp add: previous_files_def all_files_def split: option.splits)
  have d: "distinct (map fst allFiles_init)"
    by (simp add: allFiles_init_def)
  have m: "\<forall>x \<in> set ?infos. categorizeFileByPath (out_filepath x) \<in> fst ` set allFiles_init"
    using categorizeFileByPath_labels by (auto simp: allFiles_init_def labels_def)
  have pushed: "forEach_err
                  (\<lambda>allFiles fileInfo.
                     push_to allFiles (categorizeFileByPath (out_filepath fileInfo)) fileInfo)
                  ?infos allFiles_init
      = Inr (map (\<lambda>(k, ys). (k, ys @ map (\<lambda>x. x)
                (filter (\<lambda>x. categorizeFileByPath (out_filepath x) = k) ?infos))) allFiles_init)"
    using d m by (rule forEach_push)
  show ?thesis
    unfolding getFilesGroupedByType_history_def Let_def prev processed_files_latest_infos pushed
    using nonempty
    by (simp add: sort_each_def allFiles_init_def labels_def)
qed

lemma getFilesGroupedByType_eq:
  "healthHistory \<noteq> [] \<Longrightarrow>
   getFilesGroupedByType healthHistory =
     Inr (map (\<lambda>k. (k, js_sort by_score
                        (filter (\<lambda>fi. categorizeFileByPath_page (out_filepath fi) = k)
                           (latest_infos calculateFileAvgScore healthHistory))))
            labels)"
  unfolding getFilesGroupedByType_def
  by (rule group_files_eq) (simp_all add: categorizeFileByPath_page_labels)

lemma getFilesGroupedByType_api_first_eq:
  "healthHistory \<noteq> [] \<Longrightarrow>
   getFilesGroupedByType_api_first healthHistory =
     Inr (map (\<lambda>k. (k, js_sort by_score
                        (filter (\<lambda>fi. categorizeFileByPath_api_first (out_filepath fi) = k)
                           (latest_infos calculateFileAvgScore_or0 healthHistory))))
            labels)"
  unfolding getFilesGroupedByType_api_first_def
  by (rule group_files_eq) (simp_all add: categorizeFileByPath_api_first_labels)

section \<open>Sorting\<close>

lemma mset_insert_by: "mset (insert_by cmp x ys) = add_mset x (mset ys)"
  by (induction ys) auto

lemma mset_js_sort: "mset (js_sort cmp xs) = mset xs"
  by (induction xs) (auto simp: js_sort_def mset_insert_by)

lemma set_js_sort: "set (js_sort cmp xs) = set xs"
  using mset_js_sort [of cmp xs] by (metis set_mset_mset)

lemma length_js_sort: "length (js_sort cmp xs) = length xs"
  using mset_js_sort [of cmp xs] by (metis size_mset)

lemma by_score_gt0:
  "is_number (score a) \<Longrightarrow> is_number (score b) \<Longrightarrow>
   js_gt0 (by_score a b) \<longleftrightarrow> \<not> score_le (score a) (score b)"
  by (cases "score a"; cases "score b") (auto simp: by_score_def)

lemma score_le_trans_num:
  "is_number a \<Longrightarrow> is_number b \<Longrightarrow> is_number c \<Longrightarrow> score_le a b \<Longrightarrow> score_le b c \<Longrightarrow> score_le a c"
  by (cases a; cases b; cases c) auto

lemma score_le_total_num:
  "is_number a \<Longrightarrow> is_number b \<Longrightarrow> \<not> score_le a b \<Longrightarrow> score_le b a"
  by (cases a; cases b) auto

lemma sorted_insert_by:
  assumes "\<forall>y \<in> set (x # ys). is_number (score y)"
    and "sorted_wrt (\<lambda>a b. score_le (score a) (score b)) ys"
  shows "sorted_wrt (\<lambda>a b. score_le (score a) (score b)) (insert_by by_score x ys)"
  using assms
proof (induction ys)
  case Nil
  then show ?case by simp
next
  case (Cons y ys)
  show ?case
  proof (cases "js_gt0 (by_score x y)")
    case True
    then have yx: "score_le (score y) (score x)"
      using Cons.prems by (simp add: by_score_gt0 score_le_total_num)
    have "\<forall>z \<in> set (insert_by by_score x ys). score_le (score y) (score z)"
      using Cons.prems yx
      by (metis insert_iff mset_insert_by set_mset_add_mset_insert set_mset_mset
          sorted_wrt.simps(2))
    with True Cons show ?thesis by simp
  next
    case False
    then have xy: "score_le (score x) (score y)"
      using Cons.prems by (simp add: by_score_gt0)
    have "\<forall>z \<in> set ys. score_le (score x) (score z)"
      using Cons.prems xy by (auto intro: score_le_trans_num)
    with False xy Cons.prems show ?thesis by simp
  qed
qed

lemma sorted_js_sort:
  "\<forall>y \<in> set xs. is_number (score y) \<Longrightarrow>
   sorted_wrt (\<lambda>a b. score_le (score a) (score b)) (js_sort by_score xs)"
proof (induction xs)
  case Nil
  then show ?case by (simp add: js_sort_def)
next
  case (Cons x xs)
  have "sorted_wrt (\<lambda>a b. score_le (score a) (score b)) (insert_by by_score x (js_sort by_score xs))"
    by (rule sorted_insert_by) (use Cons in \<open>auto simp: set_js_sort\<close>)
  then show ?case by (simp add: js_sort_def)
qed

section \<open>Grouping: partition and order\<close>

lemma mset_concat_buckets:
  "distinct ks \<Longrightarrow>
   mset (concat (map (\<lambda>k. filter (\<lambda>x. key x = k) xs) ks))
     = filter_mset (\<lambda>x. key x \<in> set ks) (mset xs)"
proof (induction ks)
  case Nil
  then show ?case by simp
next
  case (Cons k ks)
  have "filter_mset (\<lambda>x. key x = k) (mset xs) + filter_mset (\<lambda>x. key x \<in> set ks) (mset xs)
        = filter_mset (\<lambda>x. key x \<in> set (k # ks)) (mset xs)"
    using Cons.prems by (intro multiset_eqI) auto
  with Cons show ?case by simp
qed

lemma mset_buckets_total:
  assumes "distinct ks" and "\<And>x. key x \<in> set ks"
  shows "mset (concat (map (\<lambda>k. js_sort cmp (filter (\<lambda>x. key x = k) xs)) ks)) = mset xs"
proof -
  have "mset (concat (map (\<lambda>k. js_sort cmp (filter (\<lambda>x. key x = k) xs)) ks))
        = mset (concat (map (\<lambda>k. filter (\<lambda>x. key x = k) xs) ks))"
    by (induction ks) (simp_all add: mset_js_sort)
  then show ?thesis
    using assms by (simp add: mset_concat_buckets)
qed

lemma length_latest_infos:
  "length (latest_infos avg healthHistory) = length (all_files (latest_entry healthHistory))"
  by (simp add: latest_infos_def all_files_def length_concat comp_def)

lemma distinct_labels: "distinct labels"
  by (simp add: labels_def)

lemma buckets_partition:
  fixes categorize :: "string \<Rightarrow> string"
    and avg :: "FileMetrics \<Rightarrow> jsval"
    and healthHistory :: "HealthHistoryEntry list"
  assumes "\<And>p. categorize p \<in> set labels"
  defines "allFiles \<equiv> map (\<lambda>k. (k, js_sort by_score
                        (filter (\<lambda>fi. categorize (out_filepath fi) = k)
                           (latest_infos avg healthHistory)))) labels"
  shows "map fst allFiles = labels"
    and "mset (concat (map snd allFiles)) = mset (latest_infos avg healthHistory)"
    and "sum_list (map (\<lambda>(k, fs). length fs) allFiles)
           = length (all_files (latest_entry healthHistory))"
    and "\<forall>(k, fs) \<in> set allFiles. \<forall>fi \<in> set fs. categorize (out_filepath fi) = k"
proof -
  show keys: "map fst allFiles = labels"
    by (simp add: allFiles_def comp_def)
  show ms: "mset (concat (map snd allFiles)) = mset (latest_infos avg healthHistory)"
    using mset_buckets_total [OF distinct_labels, of "\<lambda>fi. categorize (out_filepath fi)"] assms(1)
    by (simp add: allFiles_def comp_def)
  have "sum_list (map (\<lambda>(k, fs). length fs) allFiles) = length (concat (map snd allFiles))"
    by (simp add: length_concat comp_def case_prod_unfold)
  also have "\<dots> = size (mset (concat (map snd allFiles)))"
    by simp
  also have "\<dots> = length (latest_infos avg healthHistory)"
    unfolding ms by simp
  finally show "sum_list (map (\<lambda>(k, fs). length fs) allFiles)
           = length (all_files (latest_entry healthHistory))"
    by (simp add: length_latest_infos)
  show "\<forall>(k, fs) \<in> set allFiles. \<forall>fi \<in> set fs. categorize (out_filepath fi) = k"
    by (auto simp: allFiles_def set_js_sort)
qed

text \<open>
  C10.  When the history is not empty, \<open>getFilesGroupedByType\<close> (of the page and of
  the history page) does not throw and returns the five buckets Pages, Components, UI
  Files, API Files and Other, in this order.  The buckets taken together hold the
  objects built for the file entries of the latest run, each entry once, every object
  in the bucket of the category of its path; so the sizes of the buckets add up to the
  number of file entries of all components of the latest run.
\<close>

theorem getFilesGroupedByType_partition:
  assumes "healthHistory \<noteq> []"
  shows "(\<exists>allFiles. getFilesGroupedByType healthHistory = Inr allFiles
            \<and> map fst allFiles = [''Pages'', ''Components'', ''UI Files'', ''API Files'', ''Other'']
            \<and> mset (concat (map snd allFiles))
                = mset (latest_infos calculateFileAvgScore healthHistory)
            \<and> (\<forall>(k, fs) \<in> set allFiles. \<forall>fi \<in> set fs.
                  categorizeFileByPath_page (out_filepath fi) = k)
            \<and> sum_list (map (\<lambda>(k, fs). length fs) allFiles)
                = length (all_files (latest_entry healthHistory)))
       \<and> (\<exists>allFiles. getFilesGroupedByType_history healthHistory = Inr allFiles
            \<and> map fst allFiles = [''Pages'', ''Components'', ''UI Files'', ''API Files'', ''Other'']
            \<and> mset (concat (map snd allFiles))
                = mset (latest_infos calculateFileAvgScore healthHistory)
            \<and> (\<forall>(k, fs) \<in> set allFiles. \<forall>fi \<in> set fs.
                  categorizeFileByPath (out_filepath fi) = k)
            \<and> sum_list (map (\<lambda>(k, fs). length fs) allFiles)
                = length (all_files (latest_entry healthHistory)))"
proof (intro conjI)
  show "\<exists>allFiles. getFilesGroupedByType healthHistory = Inr allFiles
            \<and> map fst allFiles = [''Pages'', ''Components'', ''UI Files'', ''API Files'', ''Other'']
            \<and> mset (concat (map snd allFiles))
                = mset (latest_infos calculateFileAvgScore healthHistory)
            \<and> (\<forall>(k, fs) \<in> set allFiles. \<forall>fi \<in> set fs.
                  categorizeFileByPath_page (out_filepath fi) = k)
            \<and> sum_list (map (\<lambda>(k, fs). length fs) allFiles)
                = length (all_files (latest_entry healthHistory))"
    using buckets_partition [of categorizeFileByPath_page calculateFileAvgScore healthHistory,
        OF categorizeFileByPath_page_labels]
      getFilesGroupedByType_eq [OF assms]
    unfolding labels_def [symmetric] by blast
  show "\<exists>allFiles. getFilesGroupedByType_history healthHistory = Inr allFiles
            \<and> map fst allFiles = [''Pages'', ''Components'', ''UI Files'', ''API Files'', ''Other'']
            \<and> mset (concat (map snd allFiles))
                = mset (latest_infos calculateFileAvgScore healthHistory)
            \<and> (\<forall>(k, fs) \<in> set allFiles. \<forall>fi \<in> set fs.
                  categorizeFileByPath (out_filepath fi) = k)
            \<and> sum_list (map (\<lambda>(k, fs). length fs) allFiles)
                = length (all_files (latest_entry healthHistory))"
    using buckets_partition [of categorizeFileByPath calculateFileAvgScore healthHistory,
        OF categorizeFileByPath_labels]
      getFilesGroupedByType_history_eq [OF assms]
    unfolding labels_def [symmetric] by blast
qed

theorem getFilesGroupedByType_partition_witness:
  "example_history \<noteq> []
   \<and> (\<exists>allFiles. getFilesGroupedByType example_history = Inr allFiles
          \<and> sum_list (map (\<lambda>(k, fs). length fs) allFiles) = 4)
   \<and> (\<exists>allFiles. getFilesGroupedByType_history example_history = Inr allFiles
          \<and> sum_list (map (\<lambda>(k, fs). length fs) allFiles) = 4)"
proof -
  have ne: "example_history \<noteq> []"
    by (simp add: example_history_def)
  have n: "length (all_files (latest_entry example_history)) = 4"
    by (simp add: example_history_def latest_entry_def all_files_def example_entry_def
        example_latest_files_def)
  from getFilesGroupedByType_partition [OF ne] n ne show ?thesis
    by auto
qed

lemma is_number_iff: "is_number v \<longleftrightarrow> (\<exists>q. v = Num q)"
  by (cases v) auto

lemma numeric_calculateFileAvgScore:
  "numeric_scores file \<Longrightarrow> is_number (calculateFileAvgScore file)"
  by (auto simp: numeric_scores_def calculateFileAvgScore_def is_number_iff)

lemma score_make_file_info [simp]: "score (make_file_info avg prev compo file) = avg file"
  by (simp add: make_file_info_def Let_def)

lemma latest_infos_numeric:
  assumes "\<forall>file \<in> set (all_files (latest_entry healthHistory)). is_number (avg file)"
  shows "\<forall>fi \<in> set (latest_infos avg healthHistory). is_number (score fi)"
  using assms by (auto simp: latest_infos_def all_files_def)

lemma sorted_wrt_consecutive:
  "sorted_wrt P xs \<Longrightarrow> Suc i < length xs \<Longrightarrow> P (xs ! i) (xs ! Suc i)"
  by (simp add: sorted_wrt_iff_nth_less)

lemma buckets_sorted:
  fixes categorize :: "string \<Rightarrow> string"
  assumes "\<forall>file \<in> set (all_files (latest_entry healthHistory)). is_number (avg file)"
  shows "\<forall>(k, fs) \<in> set (map (\<lambda>k. (k, js_sort by_score
                        (filter (\<lambda>fi. categorize (out_filepath fi) = k)
                           (latest_infos avg healthHistory)))) labels).
           \<forall>i. Suc i < length fs \<longrightarrow> score_le (score (fs ! i)) (score (fs ! Suc i))"
proof -
  have "sorted_wrt (\<lambda>a b. score_le (score a) (score b))
          (js_sort by_score (filter (\<lambda>fi. categorize (out_filepath fi) = k)
             (latest_infos avg healthHistory)))" for k
    by (rule sorted_js_sort) (use latest_infos_numeric [OF assms] in auto)
  then show ?thesis
    by (auto intro: sorted_wrt_consecutive)
qed

text \<open>
  What holds of the order: when the history is not empty and the six scores of every
  file of the latest run are numbers, \<open>getFilesGroupedByType\<close> (of the page and of the
  history page) returns the five buckets, each of which holds the objects built for
  the files of its category, as many times as they were built, in ascending order of
  score.
\<close>

lemma getFilesGroupedByType_ascending:
  assumes "healthHistory \<noteq> []"
    and "\<forall>file \<in> set (all_files (latest_entry healthHistory)). numeric_scores file"
  shows "\<exists>allFiles. getFilesGroupedByType healthHistory = Inr allFiles
            \<and> map fst allFiles = labels
            \<and> (\<forall>(k, fs) \<in> set allFiles.
                  mset fs = mset (filter (\<lambda>fi. categorizeFileByPath_page (out_filepath fi) = k)
                                    (latest_infos calculateFileAvgScore healthHistory))
                  \<and> sorted_wrt (\<lambda>a b. score_le (score a) (score b)) fs)"
    and "\<exists>allFiles. getFilesGroupedByType_history healthHistory = Inr allFiles
            \<and> map fst allFiles = labels
            \<and> (\<forall>(k, fs) \<in> set allFiles.
                  mset fs = mset (filter (\<lambda>fi. categorizeFileByPath (out_filepath fi) = k)
                                    (latest_infos calculateFileAvgScore healthHistory))
                  \<and> sorted_wrt (\<lambda>a b. score_le (score a) (score b)) fs)"
proof -
  have "\<forall>file \<in> set (all_files (latest_entry healthHistory)).
          is_number (calculateFileAvgScore file)"
    using assms(2) by (simp add: numeric_calculateFileAvgScore)
  then have num: "\<forall>fi \<in> set (latest_infos calculateFileAvgScore healthHistory).
                    is_number (score fi)"
    by (rule latest_infos_numeric)
  have srt: "sorted_wrt (\<lambda>a b. score_le (score a) (score b))
          (js_sort by_score (filter (\<lambda>fi. categorize (out_filepath fi) = k)
             (latest_infos calculateFileAvgScore healthHistory)))"
    for k and categorize :: "string \<Rightarrow> string"
    by (rule sorted_js_sort) (use num in auto)
  show "\<exists>allFiles. getFilesGroupedByType healthHistory = Inr allFiles
            \<and> map fst allFiles = labels
            \<and> (\<forall>(k, fs) \<in> set allFiles.
                  mset fs = mset (filter (\<lambda>fi. categorizeFileByPath_page (out_filepath fi) = k)
                                    (latest_infos calculateFileAvgScore healthHistory))
                  \<and> sorted_wrt (\<lambda>a b. score_le (score a) (score b)) fs)"
    using srt [of categorizeFileByPath_page]
    by (auto simp: getFilesGroupedByType_eq [OF assms(1)] comp_def mset_js_sort)
  show "\<exists>allFiles. getFilesGroupedByType_history healthHistory = Inr allFiles
            \<and> map fst allFiles = labels
            \<and> (\<forall>(k, fs) \<in> set allFiles.
                  mset fs = mset (filter (\<lambda>fi. categorizeFileByPath (out_filepath fi) = k)
                                    (latest_infos calculateFileAvgScore healthHistory))
                  \<and> sorted_wrt (\<lambda>a b. score_le (score a) (score b)) fs)"
    using srt [of categorizeFileByPath]
    by (auto simp: getFilesGroupedByType_history_eq [OF assms(1)] comp_def mset_js_sort)
qed

text \<open>
  C8 (the code departs from the claim).  A latest run with two pages, the first
  without \<open>size_score\<close>.  \<open>calculateFileAvgScore\<close> of the page and of the utilities
  module gives the first the score \<open>NaN\<close> (the defect of C6); the comparator
  \<open>a.score - b.score\<close> then returns \<open>NaN\<close>, which the sort takes for zero, and the
  bucket keeps the two in the order of the run.  The scores of the bucket are \<open>NaN\<close>
  and 50: the earlier is not less than or equal to the later, and it would not be in
  the other order either.  The later page, whose \<open>calculateFileAvgScore\<close> reads the
  missing score as 0, gives the first the score 75 and returns the bucket in ascending
  order.
\<close>

theorem sort_with_missing_score:
  "map_sum id (map (\<lambda>(k, fs). (k, map (\<lambda>v. (out_filepath v, score v)) fs)))
     (getFilesGroupedByType
        [example_entry [(example_file ''ui/pages/A.tsx'' 90)\<lparr>size_score := Undefined\<rparr>,
                        example_file ''ui/pages/B.tsx'' 50]])
     = Inr [(''Pages'', [(''ui/pages/A.tsx'', NaN), (''ui/pages/B.tsx'', Num 50)]),
            (''Components'', []), (''UI Files'', []), (''API Files'', []), (''Other'', [])]
   \<and> map_sum id (map (\<lambda>(k, fs). (k, map (\<lambda>v. (out_filepath v, score v)) fs)))
     (getFilesGroupedByType_history
        [example_entry [(example_file ''ui/pages/A.tsx'' 90)\<lparr>size_score := Undefined\<rparr>,
                        example_file ''ui/pages/B.tsx'' 50]])
     = Inr [(''Pages'', [(''ui/pages/A.tsx'', NaN), (''ui/pages/B.tsx'', Num 50)]),
            (''Components'', []), (''UI Files'', []), (''API Files'', []), (''Other'', [])]
   \<and> \<not> score_le NaN (Num 50) \<and> \<not> score_le (Num 50) NaN
   \<and> map_sum id (map (\<lambda>(k, fs). (k, map (\<lambda>v. (out_filepath v, score v)) fs)))
     (getFilesGroupedByType_api_first
        [example_entry [(example_file ''ui/pages/A.tsx'' 90)\<lparr>size_score := Undefined\<rparr>,
                        example_file ''ui/pages/B.tsx'' 50]])
     = Inr [(''Pages'', [(''ui/pages/B.tsx'', Num 50), (''ui/pages/A.tsx'', Num 75)]),
            (''Components'', []), (''UI Files'', []), (''API Files'', []), (''Other'', [])]"
  by (simp add: example_entry_def example_file_def
      calculateFileAvgScore_or0_def getFilesGroupedByType_api_first_def
      categorizeFileByPath_api_first_def is_api_path_def strip_leading_slashes_def regex_defs
      calculateFileAvgScore_def processFilesData_def process_file_def
      record_previous_def obj_defs js_or_def Let_def details_of_def
      getFilesGroupedByType_def group_files_def latest_entry_def previous_entry_def
      getFilesGroupedByType_history_def categorizeFileByPath_def
      make_file_info_def allFiles_init_def categorizeFileByPath_page_def sort_each_def
      js_sort_def by_score_def ProcessedFile.defs)

section \<open>The previous score and the change\<close>

lemma map_of_record_previous_absent:
  "p \<notin> filepath ` set fs \<Longrightarrow> map_of (record_previous avg acc fs) p = map_of acc p"
proof (induction fs arbitrary: acc)
  case Nil
  then show ?case by (simp add: record_previous_def)
next
  case (Cons f fs)
  then have "map_of (record_previous avg (obj_put (filepath f) (avg f) acc) fs) p
             = map_of (obj_put (filepath f) (avg f) acc) p"
    by simp
  with Cons.prems show ?case
    by (simp add: record_previous_def map_of_obj_put)
qed

lemma obj_num_absent:
  "p \<notin> filepath ` set fs \<Longrightarrow> \<not> inherited p \<Longrightarrow>
   obj_num (record_previous avg [] fs) p = Undefined"
  by (simp add: obj_num_def obj_get_def map_of_record_previous_absent)

lemma obj_num_inherited:
  "p \<notin> filepath ` set fs \<Longrightarrow> inherited p \<Longrightarrow>
   obj_num (record_previous avg [] fs) p = Inherited p"
  by (simp add: obj_num_def obj_get_def map_of_record_previous_absent)

lemma js_sub_self: "is_number v \<Longrightarrow> js_sub v v = Num 0"
  by (cases v) auto

lemma make_file_info_new:
  assumes "is_number (avg file)" and "obj_num prev (filepath file) = Undefined"
  shows "make_file_info avg prev compo file =
           \<lparr>out_filepath = filepath file, score = avg file, previousScore = avg file,
            scoreChange = Num 0, out_issues = issues file, details = details_of file,
            component = name compo\<rparr>"
  using assms by (simp add: make_file_info_def Let_def js_or_def js_sub_self)

lemma process_file_new:
  assumes "is_number (calculateFileAvgScore file)" and "obj_num prev (filepath file) = Undefined"
  shows "process_file prev file =
           \<lparr>out_filepath = filepath file, score = calculateFileAvgScore file,
            previousScore = calculateFileAvgScore file,
            scoreChange = Num 0, out_issues = issues file, details = details_of file\<rparr>"
  using assms by (simp add: process_file_def Let_def js_or_def js_sub_self)

lemma make_file_info_known:
  assumes "avg file = Num a" and "obj_num prev (filepath file) = Num q" and "q \<noteq> 0"
  shows "previousScore (make_file_info avg prev compo file) = Num q"
    and "scoreChange (make_file_info avg prev compo file) = Num (a - q)"
  using assms by (simp_all add: make_file_info_def Let_def js_or_def)

lemma process_file_known:
  assumes "calculateFileAvgScore file = Num a" and "obj_num prev (filepath file) = Num q"
    and "q \<noteq> 0"
  shows "previousScore (process_file prev file) = Num q"
    and "scoreChange (process_file prev file) = Num (a - q)"
  using assms by (simp_all add: process_file_def Let_def js_or_def)

lemma latest_info_in_bucket:
  assumes ne: "healthHistory \<noteq> []"
    and total: "\<And>p. categorize p \<in> set labels"
    and c: "compo \<in> set (components (results (latest_entry healthHistory)))"
    and f: "file \<in> set (files compo)"
  shows "\<exists>allFiles fs. group_files avg categorize healthHistory = Inr allFiles
           \<and> (categorize (filepath file), fs) \<in> set allFiles
           \<and> make_file_info avg (previous_scores avg healthHistory) compo file \<in> set fs"
proof -
  let ?fi = "make_file_info avg (previous_scores avg healthHistory) compo file"
  let ?bucket = "\<lambda>k. js_sort by_score (filter (\<lambda>fi. categorize (out_filepath fi) = k)
                           (latest_infos avg healthHistory))"
  have "?fi \<in> set (latest_infos avg healthHistory)"
    using c f by (auto simp: latest_infos_def)
  then have "?fi \<in> set (?bucket (categorize (filepath file)))"
    by (simp add: set_js_sort)
  moreover have "(categorize (filepath file), ?bucket (categorize (filepath file)))
                   \<in> set (map (\<lambda>k. (k, ?bucket k)) labels)"
    using total by auto
  ultimately show ?thesis
    using group_files_eq [where categorize = categorize and avg = avg, OF ne total] by blast
qed

text \<open>
  What holds of a new file: a file of the latest run whose six scores are numbers and
  whose path is not the name of an inherited property and does not occur in the run
  before it (there may be no run before it) gets a processed file whose previous score
  is its own composite score and whose change is exactly 0.  This holds for
  \<open>processFilesData\<close>, position by position, and for the object that
  \<open>getFilesGroupedByType\<close> puts in the bucket of the file's category.
\<close>

lemma new_file_defaults:
  "(i < length currentFiles \<and> numeric_scores (currentFiles ! i)
      \<and> \<not> inherited (filepath (currentFiles ! i))
      \<and> (case previousFiles of
            None \<Rightarrow> True
          | Some fs \<Rightarrow> filepath (currentFiles ! i) \<notin> filepath ` set fs)
    \<longrightarrow> length (processFilesData currentFiles previousFiles) = length currentFiles
        \<and> processFilesData currentFiles previousFiles ! i
            = \<lparr>out_filepath = filepath (currentFiles ! i),
               score = calculateFileAvgScore (currentFiles ! i),
               previousScore = calculateFileAvgScore (currentFiles ! i),
               scoreChange = Num 0,
               out_issues = issues (currentFiles ! i),
               details = details_of (currentFiles ! i)\<rparr>
        \<and> is_number (calculateFileAvgScore (currentFiles ! i)))
   \<and> (healthHistory \<noteq> []
      \<and> compo \<in> set (components (results (latest_entry healthHistory)))
      \<and> file \<in> set (files compo) \<and> numeric_scores file
      \<and> \<not> inherited (filepath file)
      \<and> filepath file \<notin> filepath ` set (previous_files healthHistory)
    \<longrightarrow> (\<exists>allFiles fs. getFilesGroupedByType healthHistory = Inr allFiles
           \<and> (categorizeFileByPath_page (filepath file), fs) \<in> set allFiles
           \<and> \<lparr>out_filepath = filepath file,
               score = calculateFileAvgScore file,
               previousScore = calculateFileAvgScore file,
               scoreChange = Num 0,
               out_issues = issues file,
               details = details_of file,
               component = name compo\<rparr> \<in> set fs))"
proof (intro conjI impI)
  assume a: "i < length currentFiles \<and> numeric_scores (currentFiles ! i)
      \<and> \<not> inherited (filepath (currentFiles ! i))
      \<and> (case previousFiles of
            None \<Rightarrow> True
          | Some fs \<Rightarrow> filepath (currentFiles ! i) \<notin> filepath ` set fs)"
  let ?prev = "case previousFiles of
                 None \<Rightarrow> []
               | Some fs \<Rightarrow> record_previous calculateFileAvgScore [] fs"
  show "length (processFilesData currentFiles previousFiles) = length currentFiles"
    by (simp add: processFilesData_def)
  show num: "is_number (calculateFileAvgScore (currentFiles ! i))"
    using a by (simp add: numeric_calculateFileAvgScore)
  have absent: "obj_num ?prev (filepath (currentFiles ! i)) = Undefined"
    using a by (cases previousFiles) (simp_all add: obj_num_absent, simp add: obj_num_def obj_get_def)
  have "processFilesData currentFiles previousFiles ! i = process_file ?prev (currentFiles ! i)"
    using a by (simp add: processFilesData_def)
  then show "processFilesData currentFiles previousFiles ! i
            = \<lparr>out_filepath = filepath (currentFiles ! i),
               score = calculateFileAvgScore (currentFiles ! i),
               previousScore = calculateFileAvgScore (currentFiles ! i),
               scoreChange = Num 0,
               out_issues = issues (currentFiles ! i),
               details = details_of (currentFiles ! i)\<rparr>"
    using process_file_new [OF num absent] by simp
next
  assume b: "healthHistory \<noteq> []
      \<and> compo \<in> set (components (results (latest_entry healthHistory)))
      \<and> file \<in> set (files compo) \<and> numeric_scores file
      \<and> \<not> inherited (filepath file)
      \<and> filepath file \<notin> filepath ` set (previous_files healthHistory)"
  have num: "is_number (calculateFileAvgScore file)"
    using b by (simp add: numeric_calculateFileAvgScore)
  have absent: "obj_num (previous_scores calculateFileAvgScore healthHistory) (filepath file)
                  = Undefined"
    using b by (simp add: previous_scores_def obj_num_absent)
  from b have "\<exists>allFiles fs.
       group_files calculateFileAvgScore categorizeFileByPath_page healthHistory = Inr allFiles
       \<and> (categorizeFileByPath_page (filepath file), fs) \<in> set allFiles
       \<and> make_file_info calculateFileAvgScore
            (previous_scores calculateFileAvgScore healthHistory) compo file \<in> set fs"
    by (intro latest_info_in_bucket) (simp_all add: categorizeFileByPath_page_labels)
  then show "\<exists>allFiles fs. getFilesGroupedByType healthHistory = Inr allFiles
           \<and> (categorizeFileByPath_page (filepath file), fs) \<in> set allFiles
           \<and> \<lparr>out_filepath = filepath file,
               score = calculateFileAvgScore file,
               previousScore = calculateFileAvgScore file,
               scoreChange = Num 0,
               out_issues = issues file,
               details = details_of file,
               component = name compo\<rparr> \<in> set fs"
    unfolding getFilesGroupedByType_def
      make_file_info_new [of calculateFileAvgScore "file", OF num absent] .
qed

lemma new_file_defaults_example:
  "processFilesData example_latest_files (Some example_previous_files) ! 2
     = \<lparr>out_filepath = ''app/apis/c/__init__.py'', score = Num 10, previousScore = Num 10,
        scoreChange = Num 0, out_issues = [],
        details = details_of (example_file ''app/apis/c/__init__.py'' 10)\<rparr>
   \<and> (\<exists>allFiles fs. getFilesGroupedByType example_history = Inr allFiles
         \<and> (''API Files'', fs) \<in> set allFiles
         \<and> \<lparr>out_filepath = ''app/apis/c/__init__.py'', score = Num 10, previousScore = Num 10,
             scoreChange = Num 0, out_issues = [],
             details = details_of (example_file ''app/apis/c/__init__.py'' 10),
             component = ''UI''\<rparr> \<in> set fs)"
proof -
  let ?f = "example_file ''app/apis/c/__init__.py'' 10"
  let ?c = "\<lparr>name = ''UI'', comp_score = Num 0, files = example_latest_files, comp_issues = []\<rparr>"
  have f: "example_latest_files ! 2 = ?f" "(2::nat) < length example_latest_files"
    by (simp_all add: example_latest_files_def)
  have num: "numeric_scores ?f"
    by (simp add: numeric_scores_def example_file_def)
  have new: "filepath ?f \<notin> filepath ` set example_previous_files"
    "\<not> inherited (filepath ?f)"
    by (simp_all add: example_previous_files_def example_file_def inherited_def
        Object_prototype_keys_def)
  have avg: "calculateFileAvgScore ?f = Num 10"
    by (simp add: calculateFileAvgScore_def example_file_def)
  have path: "filepath ?f = ''app/apis/c/__init__.py''" "issues ?f = []"
    by (simp_all add: example_file_def)
  have cat: "categorizeFileByPath_page ''app/apis/c/__init__.py'' = ''API Files''"
    by (simp add: categorizeFileByPath_page_def)
  have latest: "components (results (latest_entry example_history)) = [?c]"
    by (simp add: example_history_def latest_entry_def example_entry_def)
  have prev: "previous_files example_history = example_previous_files"
    by (simp add: previous_files_def previous_entry_def example_history_def all_files_def
        example_entry_def)
  have mem: "?f \<in> set (files ?c)"
    by (simp add: example_latest_files_def)
  have ne: "example_history \<noteq> []"
    by (simp add: example_history_def)
  from new_file_defaults
    [of 2 example_latest_files "Some example_previous_files" example_history ?c ?f]
  show ?thesis
    using f num new avg path cat latest prev mem ne by simp
qed

text \<open>
  C4 (the code departs from the claim).  \<open>previousScores\<close> is created with \<open>{}\<close>, and
  the default \<open>previousScores[path] || avgScore\<close> is meant for a path that has no
  score in it: the new file \<open>ui/pages/N.tsx\<close> gets its own score 50 for previous score,
  and the change 0.  For a new file whose path is \<open>constructor\<close> the read finds the function
  every object inherits under that name, which is truthy: the previous score is that
  function and the change is \<open>NaN\<close>, where the claim has the previous score 50 and the
  change 0.  This happens with a run before the latest and without one, in
  \<open>processFilesData\<close> and in \<open>getFilesGroupedByType\<close>.  And for a new file without
  \<open>size_score\<close> the composite score is \<open>NaN\<close> (the defect of C6), and so are the
  previous score and the change, where the claim has the change 0.
\<close>

theorem new_file_spurious_previous_score:
  "map (\<lambda>v. (out_filepath v, score v, previousScore v, scoreChange v))
     (processFilesData [example_file ''ui/pages/N.tsx'' 50]
        (Some [example_file ''ui/pages/A.tsx'' 80]))
     = [(''ui/pages/N.tsx'', Num 50, Num 50, Num 0)]
   \<and> map (\<lambda>v. (out_filepath v, score v, previousScore v, scoreChange v))
     (processFilesData [example_file ''constructor'' 50]
        (Some [example_file ''ui/pages/A.tsx'' 80]))
     = [(''constructor'', Num 50, Inherited ''constructor'', NaN)]
   \<and> map (\<lambda>v. (out_filepath v, score v, previousScore v, scoreChange v))
     (processFilesData [example_file ''constructor'' 50] None)
     = [(''constructor'', Num 50, Inherited ''constructor'', NaN)]
   \<and> map_sum id (map (\<lambda>(k, fs). (k, map (\<lambda>v. (out_filepath v, score v, previousScore v,
                                                    scoreChange v)) fs)))
     (getFilesGroupedByType
        [example_entry [example_file ''ui/pages/A.tsx'' 80],
         example_entry [example_file ''constructor'' 50]])
     = Inr [(''Pages'', []), (''Components'', []), (''UI Files'', []), (''API Files'', []),
            (''Other'', [(''constructor'', Num 50, Inherited ''constructor'', NaN)])]
   \<and> map (\<lambda>v. (out_filepath v, score v, previousScore v, scoreChange v))
     (processFilesData [(example_file ''ui/pages/N.tsx'' 90)\<lparr>size_score := Undefined\<rparr>]
        (Some [example_file ''ui/pages/A.tsx'' 80]))
     = [(''ui/pages/N.tsx'', NaN, NaN, NaN)]"
  by (simp add: example_entry_def example_file_def
      calculateFileAvgScore_def processFilesData_def process_file_def
      record_previous_def obj_defs js_or_def Let_def
      getFilesGroupedByType_def group_files_def latest_entry_def previous_entry_def
      make_file_info_def allFiles_init_def categorizeFileByPath_page_def sort_each_def
      js_sort_def by_score_def)

lemma record_previous_snoc:
  "record_previous avg acc (fs @ [f]) = obj_put (filepath f) (avg f) (record_previous avg acc fs)"
  by (simp add: record_previous_def)

lemma obj_num_record_previous:
  "p \<in> filepath ` set fs \<Longrightarrow> p \<noteq> ''__proto__'' \<Longrightarrow>
   obj_num (record_previous avg acc fs) p = avg (last (filter (\<lambda>f. filepath f = p) fs))"
proof (induction fs rule: rev_induct)
  case Nil
  then show ?case by simp
next
  case (snoc f fs)
  show ?case
  proof (cases "filepath f = p")
    case True
    with snoc.prems show ?thesis
      by (simp add: record_previous_snoc obj_num_def obj_get_def map_of_obj_put)
  next
    case False
    with snoc have "obj_num (record_previous avg acc fs) p
                      = avg (last (filter (\<lambda>f. filepath f = p) fs))"
      by auto
    with False show ?thesis
      by (simp add: record_previous_snoc obj_num_def obj_get_def map_of_obj_put)
  qed
qed

text \<open>
  What holds of a file present in both runs: when its path is not \<open>__proto__\<close>, its
  composite score is a number and the score recorded for its path in the run before
  (the last file with that path) is a number other than zero, the previous score is the
  recorded one and the change is the difference.
\<close>

lemma processFilesData_known:
  assumes "i < length currentFiles"
    and "filepath (currentFiles ! i) \<in> filepath ` set previous"
    and "filepath (currentFiles ! i) \<noteq> ''__proto__''"
    and "calculateFileAvgScore (currentFiles ! i) = Num a"
    and "calculateFileAvgScore
           (last (filter (\<lambda>f. filepath f = filepath (currentFiles ! i)) previous)) = Num q"
    and "q \<noteq> 0"
  shows "previousScore (processFilesData currentFiles (Some previous) ! i) = Num q"
    and "scoreChange (processFilesData currentFiles (Some previous) ! i) = Num (a - q)"
proof -
  have "obj_num (record_previous calculateFileAvgScore [] previous) (filepath (currentFiles ! i))
          = Num q"
    using assms(2,3,5) by (simp add: obj_num_record_previous)
  with assms(1,4,6)
  show "previousScore (processFilesData currentFiles (Some previous) ! i) = Num q"
    and "scoreChange (processFilesData currentFiles (Some previous) ! i) = Num (a - q)"
    by (simp_all add: processFilesData_def process_file_known)
qed

text \<open>
  C3 (the code departs from the claim).  A file present in both runs whose composite
  score in the run before is 0: the zero is falsy, \<open>previousScores[path] || avgScore\<close>
  falls through to the current score, and the processed file shows previous score 50
  and change 0, where the claim has previous score 0 and change 50.
\<close>

theorem previous_score_zero_dropped:
  "calculateFileAvgScore (example_file ''ui/pages/B.tsx'' 0) = Num 0
   \<and> calculateFileAvgScore (example_file ''ui/pages/B.tsx'' 50) = Num 50
   \<and> map (\<lambda>v. (out_filepath v, score v, previousScore v, scoreChange v))
         (processFilesData [example_file ''ui/pages/B.tsx'' 50]
            (Some [example_file ''ui/pages/B.tsx'' 0]))
       = [(''ui/pages/B.tsx'', Num 50, Num 50, Num 0)]
   \<and> map_sum id (map (\<lambda>(k, fs). (k, map (\<lambda>v. (out_filepath v, score v, previousScore v,
                                                    scoreChange v)) fs)))
         (getFilesGroupedByType
            [example_entry [example_file ''ui/pages/B.tsx'' 0],
             example_entry [example_file ''ui/pages/B.tsx'' 50]])
       = Inr [(''Pages'', [(''ui/pages/B.tsx'', Num 50, Num 50, Num 0)]),
              (''Components'', []), (''UI Files'', []), (''API Files'', []), (''Other'', [])]"
  by (simp add: example_entry_def example_file_def
      calculateFileAvgScore_def processFilesData_def process_file_def
      record_previous_def obj_defs js_or_def Let_def
      getFilesGroupedByType_def group_files_def latest_entry_def previous_entry_def
      make_file_info_def allFiles_init_def categorizeFileByPath_page_def sort_each_def
      js_sort_def by_score_def)

section \<open>Missing scores\<close>

text \<open>The copy of \<open>calculateFileAvgScore\<close> with \<open>|| 0\<close> is the plain copy applied to
  the file in which every falsy score is replaced by 0.\<close>

lemma js_add_zero_left: "js_add (js_add (Num 0) a) b = js_add a b"
  by (cases a; cases b) auto

lemma calculateFileAvgScore_or0_eq:
  "calculateFileAvgScore_or0 file =
     calculateFileAvgScore
       \<lparr>filepath = filepath file,
        size_score = js_or (size_score file) (Num 0),
        complexity_score = js_or (complexity_score file) (Num 0),
        duplication_score = js_or (duplication_score file) (Num 0),
        function_length_score = js_or (function_length_score file) (Num 0),
        comment_density_score = js_or (comment_density_score file) (Num 0),
        naming_convention_score = js_or (naming_convention_score file) (Num 0),
        issues = issues file\<rparr>"
  by (simp add: calculateFileAvgScore_or0_def calculateFileAvgScore_def Let_def js_add_zero_left
      eval_nat_numeral)

lemma calculateFileAvgScore_or0_number:
  assumes "is_number (size_score file) \<or> size_score file = Undefined"
    and "is_number (complexity_score file) \<or> complexity_score file = Undefined"
    and "is_number (duplication_score file) \<or> duplication_score file = Undefined"
    and "is_number (function_length_score file) \<or> function_length_score file = Undefined"
    and "is_number (comment_density_score file) \<or> comment_density_score file = Undefined"
    and "is_number (naming_convention_score file) \<or> naming_convention_score file = Undefined"
  shows "\<exists>n::int. calculateFileAvgScore_or0 file = Num (of_int n)"
proof -
  have or0: "is_number v \<or> v = Undefined \<Longrightarrow> \<exists>q. js_or v (Num 0) = Num q" for v
    by (cases v) (auto simp: js_or_def)
  from assms show ?thesis
    by (auto simp: calculateFileAvgScore_or0_def Let_def dest!: or0)
qed

text \<open>
  C6 (the code departs from the claim).  A file without \<open>size_score\<close>, the other five
  scores being 90.  The copy of \<open>calculateFileAvgScore\<close> of the utilities module and of
  the first page adds \<open>undefined\<close> to the sum and returns \<open>NaN\<close>; the copy of the later
  page, which reads every score through \<open>|| 0\<close>, returns 75.
\<close>

theorem missing_score_gives_NaN:
  "calculateFileAvgScore
     \<lparr>filepath = ''ui/pages/A.tsx'', size_score = Undefined, complexity_score = Num 90,
      duplication_score = Num 90, function_length_score = Num 90,
      comment_density_score = Num 90, naming_convention_score = Num 90, issues = []\<rparr>
     = NaN
   \<and> calculateFileAvgScore_or0
     \<lparr>filepath = ''ui/pages/A.tsx'', size_score = Undefined, complexity_score = Num 90,
      duplication_score = Num 90, function_length_score = Num 90,
      comment_density_score = Num 90, naming_convention_score = Num 90, issues = []\<rparr>
     = Num 75"
  by (simp add: calculateFileAvgScore_def calculateFileAvgScore_or0_def js_or_def)

section \<open>The accordion\<close>

lemma section_avg_score_empty: "section_avg_score [] = NaN"
  by (simp add: section_avg_score_def)

lemma sum_scores_number:
  "\<forall>fi \<in> set fs. is_number (g fi) \<Longrightarrow> is_number acc \<Longrightarrow>
   is_number (foldl (\<lambda>sum file. js_add sum (g file)) acc fs)"
proof (induction fs arbitrary: acc)
  case Nil
  then show ?case by simp
next
  case (Cons f fs)
  then have "is_number (js_add acc (g f))"
    by (auto simp: is_number_iff)
  with Cons show ?case by simp
qed

lemma round_div_number: "is_number v \<Longrightarrow> 0 < n \<Longrightarrow> is_number (Math_round (js_div_len v n))"
  by (auto simp: is_number_iff)

lemma js_or_number: "is_number a \<Longrightarrow> is_number b \<Longrightarrow> is_number (js_or a b)"
  by (simp add: js_or_def)

lemma js_sub_number: "is_number a \<Longrightarrow> is_number b \<Longrightarrow> is_number (js_sub a b)"
  by (auto simp: is_number_iff)

lemma accordion_item_numbers:
  assumes "accordion_item (k, fs) = Some item"
    and "\<forall>fi \<in> set fs. is_number (score fi) \<and> is_number (previousScore fi)"
  shows "is_number (sectionAvgScore item) \<and> is_number (sectionScoreChange item)"
proof -
  from assms(1) have ne: "0 < length fs"
    by (auto simp: accordion_item_def split: if_splits)
  have a: "is_number (section_avg_score fs)"
    unfolding section_avg_score_def
    by (intro round_div_number sum_scores_number) (use assms(2) ne in auto)
  have b: "is_number (section_avg_prev_score fs)"
    unfolding section_avg_prev_score_def
    by (intro round_div_number sum_scores_number) (use assms(2) ne in \<open>auto simp: js_or_number\<close>)
  from assms(1) a b show ?thesis
    by (auto simp: accordion_item_def Let_def js_sub_number split: if_splits)
qed

text \<open>
  C7.  \<open>SectionAccordion\<close> produces one child per bucket, and the child of a bucket
  without files is \<open>null\<close>: nothing is rendered for it and no average is computed
  for it.  The child of a bucket with files is an item showing those files and their
  number, which is positive; when the scores and previous scores of its files are
  numbers, so are its average and its change (no \<open>NaN\<close>).
\<close>

theorem SectionAccordion_omits_empty:
  "length (SectionAccordion sections) = length sections
   \<and> (\<forall>i < length sections.
         snd (sections ! i) = [] \<longrightarrow> SectionAccordion sections ! i = None)
   \<and> (\<forall>i < length sections.
         snd (sections ! i) \<noteq> [] \<longrightarrow>
           (\<exists>item. SectionAccordion sections ! i = Some item
              \<and> item_section item = fst (sections ! i)
              \<and> item_files item = snd (sections ! i)
              \<and> item_count item = length (snd (sections ! i))
              \<and> 0 < item_count item
              \<and> ((\<forall>fi \<in> set (snd (sections ! i)).
                      is_number (score fi) \<and> is_number (previousScore fi))
                   \<longrightarrow> is_number (sectionAvgScore item)
                       \<and> is_number (sectionScoreChange item))))"
proof (intro conjI allI impI)
  show "length (SectionAccordion sections) = length sections"
    by (simp add: SectionAccordion_def)
next
  fix i
  assume "i < length sections" and "snd (sections ! i) = []"
  then show "SectionAccordion sections ! i = None"
    by (simp add: SectionAccordion_def accordion_item_def case_prod_unfold)
next
  fix i
  assume i: "i < length sections" and ne: "snd (sections ! i) \<noteq> []"
  obtain k fs where kfs: "sections ! i = (k, fs)"
    by (cases "sections ! i")
  with ne obtain item where item: "accordion_item (k, fs) = Some item"
    by (auto simp: accordion_item_def Let_def)
  have "SectionAccordion sections ! i = Some item"
    using i kfs item by (simp add: SectionAccordion_def)
  moreover have "item_section item = k" "item_files item = fs" "item_count item = length fs"
    using item ne kfs by (auto simp: accordion_item_def Let_def split: if_splits)
  moreover have "0 < length fs"
    using ne kfs by simp
  moreover have "(\<forall>fi \<in> set fs. is_number (score fi) \<and> is_number (previousScore fi))
                   \<longrightarrow> is_number (sectionAvgScore item) \<and> is_number (sectionScoreChange item)"
    using accordion_item_numbers [OF item] by blast
  ultimately show "\<exists>item. SectionAccordion sections ! i = Some item
              \<and> item_section item = fst (sections ! i)
              \<and> item_files item = snd (sections ! i)
              \<and> item_count item = length (snd (sections ! i))
              \<and> 0 < item_count item
              \<and> ((\<forall>fi \<in> set (snd (sections ! i)).
                      is_number (score fi) \<and> is_number (previousScore fi))
                   \<longrightarrow> is_number (sectionAvgScore item)
                       \<and> is_number (sectionScoreChange item))"
    using kfs by simp
qed

lemma example_sections_eq:
  "example_sections
     = [(''Pages'', [example_info ''ui/pages/C.tsx'' 30 30, example_info ''ui/pages/B.tsx'' 50 50,
                     example_info ''ui/pages/A.tsx'' 90 80]),
        (''Components'', []), (''UI Files'', []),
        (''API Files'', [example_info ''app/apis/c/__init__.py'' 10 10]),
        (''Other'', [])]"
  by (simp add: example_sections_def example_history_def example_entry_def
      example_latest_files_def example_previous_files_def example_file_def example_info_def
      calculateFileAvgScore_def processFilesData_def process_file_def
      record_previous_def obj_defs js_or_def Let_def details_of_def
      getFilesGroupedByType_history_def latest_entry_def previous_entry_def
      allFiles_init_def categorizeFileByPath_def sort_each_def
      js_sort_def by_score_def ProcessedFile.defs)

theorem SectionAccordion_omits_empty_witness:
  "length example_sections = 5
   \<and> snd (example_sections ! 1) = []
   \<and> SectionAccordion example_sections ! 1 = None
   \<and> snd (example_sections ! 0) \<noteq> []
   \<and> (\<exists>item. SectionAccordion example_sections ! 0 = Some item
         \<and> item_section item = ''Pages'' \<and> item_count item = 3
         \<and> is_number (sectionAvgScore item) \<and> is_number (sectionScoreChange item))"
proof -
  have len: "(0::nat) < length example_sections" "(1::nat) < length example_sections"
    "length example_sections = 5"
    by (simp_all add: example_sections_eq)
  have b1: "snd (example_sections ! 1) = []"
    by (simp add: example_sections_eq)
  have b0: "snd (example_sections ! 0) \<noteq> []" "fst (example_sections ! 0) = ''Pages''"
    "length (snd (example_sections ! 0)) = 3"
    "\<forall>fi \<in> set (snd (example_sections ! 0)). is_number (score fi) \<and> is_number (previousScore fi)"
    by (simp_all add: example_sections_eq example_info_def)
  from SectionAccordion_omits_empty [of example_sections]
  have none: "SectionAccordion example_sections ! 1 = None"
    and some: "\<exists>item. SectionAccordion example_sections ! 0 = Some item
              \<and> item_section item = fst (example_sections ! 0)
              \<and> item_files item = snd (example_sections ! 0)
              \<and> item_count item = length (snd (example_sections ! 0))
              \<and> 0 < item_count item
              \<and> ((\<forall>fi \<in> set (snd (example_sections ! 0)).
                      is_number (score fi) \<and> is_number (previousScore fi))
                   \<longrightarrow> is_number (sectionAvgScore item)
                       \<and> is_number (sectionScoreChange item))"
    using len b1 b0(1) by blast+
  from some b0 none b1 len(3) show ?thesis
    by auto
qed

section \<open>Trends\<close>

lemma keys_obj_set: "set (map fst (obj_set k v kvs)) = insert k (set (map fst kvs))"
  using arg_cong [OF map_of_obj_set [of k v kvs], of dom]
  by (simp add: dom_map_of_conv_image_fst)


text \<open>The body of the loop, case by case: the path has an array of its own, or it is
  the name of an inherited property, or it is new.\<close>

lemma observe_cases:
  "observe avg fileScores file =
     (case map_of fileScores (filepath file) of
        Some scores \<Rightarrow> Inr (obj_set (filepath file) (scores @ [avg file]) fileScores)
      | None \<Rightarrow>
          if inherited (filepath file) then Inl TypeError
          else Inr (obj_set (filepath file) [avg file] fileScores))"
proof (cases "map_of fileScores (filepath file)")
  case None
  show ?thesis
  proof (cases "inherited (filepath file)")
    case True
    with None show ?thesis
      by (simp add: observe_def Let_def obj_get_def)
  next
    case False
    then have ne: "filepath file \<noteq> ''__proto__''"
      using inherited_proto by auto
    have "obj_set (filepath file) ([] @ [avg file]) (obj_set (filepath file) [] fileScores)
            = obj_set (filepath file) [avg file] fileScores"
      by (induction fileScores) auto
    with None False ne show ?thesis
      by (simp add: observe_def Let_def obj_get_def obj_put_def map_of_obj_set)
  qed
next
  case (Some scores)
  then show ?thesis
    by (simp add: observe_def Let_def obj_get_def)
qed

text \<open>
  The first loop of \<open>calculateFileTrends\<close> over a list of files, started from an object
  none of whose own keys is the name of an inherited property.  It throws when a file
  has such a name for path.  Otherwise it returns an object of the same kind, in which a
  path has the scores it had followed by the scores of the files with that path.
\<close>

lemma forEach_observe_throws:
  assumes "\<forall>k \<in> fst ` set acc. \<not> inherited k"
    and "\<exists>file \<in> set fs. inherited (filepath file)"
  shows "forEach_err (observe avg) fs acc = Inl TypeError"
  using assms
proof (induction fs arbitrary: acc)
  case Nil
  then show ?case by simp
next
  case (Cons f fs)
  show ?case
  proof (cases "inherited (filepath f)")
    case True
    with Cons.prems(1) have "map_of acc (filepath f) = None"
      by (auto simp: map_of_eq_None_iff)
    with True show ?thesis
      by (simp add: observe_cases)
  next
    case False
    with Cons.prems(2) have rest: "\<exists>file \<in> set fs. inherited (filepath file)"
      by auto
    from False have ne: "filepath f \<noteq> ''__proto__''"
      using inherited_proto by auto
    show ?thesis
    proof (cases "map_of acc (filepath f)")
      case None
      have "\<forall>k \<in> fst ` set (obj_set (filepath f) [avg f] acc). \<not> inherited k"
        using Cons.prems(1) False keys_obj_set [of "filepath f" "[avg f]" acc] by auto
      from Cons.IH [OF this rest] None False show ?thesis
        by (simp add: observe_cases)
    next
      case (Some scores)
      have "\<forall>k \<in> fst ` set (obj_set (filepath f) (scores @ [avg f]) acc). \<not> inherited k"
        using Cons.prems(1) False keys_obj_set [of "filepath f" "scores @ [avg f]" acc] by auto
      from Cons.IH [OF this rest] Some show ?thesis
        by (simp add: observe_cases)
    qed
  qed
qed



lemma forEach_err_concat:
  "forEach_err (\<lambda>s c. forEach_err body (inner c) s) cs s
     = forEach_err body (concat (map inner cs)) s"
  by (induction cs arbitrary: s) (simp_all add: forEach_err_append split: sum.splits)

lemma collect_scores_flat:
  "collect_scores avg healthHistory
     = forEach_err (observe avg) (concat (map all_files healthHistory)) []"
proof -
  have "collect_scores avg healthHistory
          = forEach_err (\<lambda>fileScores entry. forEach_err (observe avg) (all_files entry) fileScores)
              healthHistory []"
    by (simp add: collect_scores_def all_files_def forEach_err_concat)
  then show ?thesis
    by (simp add: forEach_err_concat)
qed


lemma no_inherited_paths_flat:
  "no_inherited_paths healthHistory
     \<longleftrightarrow> (\<forall>file \<in> set (concat (map all_files healthHistory)). \<not> inherited (filepath file))"
  by (auto simp: no_inherited_paths_def list_all_iff)


lemma collect_scores_throws:
  assumes "\<not> no_inherited_paths healthHistory"
  shows "collect_scores avg healthHistory = Inl TypeError"
  using forEach_observe_throws [of "[]" "concat (map all_files healthHistory)" avg] assms
  by (simp add: collect_scores_flat no_inherited_paths_flat)



text \<open>
  The result of \<open>calculateFileTrends\<close>, for any \<open>calculateFileAvgScore\<close>.  A history
  of fewer than two runs gives the empty object.  A longer history in which some path is
  the name of an inherited property makes the call throw.  Any other history gives an
  object in which a path has an entry exactly when two file entries or more have that
  path, and the entry is made of the first and of the last of their scores.
\<close>

lemma file_trends_short:
  "length healthHistory \<le> 1 \<Longrightarrow> file_trends avg healthHistory = Inr []"
  by (simp add: file_trends_def)

lemma file_trends_throws:
  "2 \<le> length healthHistory \<Longrightarrow> \<not> no_inherited_paths healthHistory \<Longrightarrow>
   file_trends avg healthHistory = Inl TypeError"
  by (simp add: file_trends_def collect_scores_throws)







text \<open>A path that is the name of an inherited property, anywhere in a history of two
  runs or more, makes \<open>calculateFileTrends\<close> throw: \<open>fileScores[filepath]\<close> is truthy
  from the start, no array is assigned, and the inherited value has no \<open>push\<close>.\<close>

lemma calculateFileTrends_inherited_path:
  "calculateFileTrends
     [example_entry [example_file ''constructor'' 60],
      example_entry [example_file ''constructor'' 70]]
     = Inl TypeError"
  by (simp add: calculateFileTrends_def file_trends_throws no_inherited_paths_def
      all_files_def example_entry_def example_file_def inherited_def Object_prototype_keys_def)

section \<open>The store: allocation and frames\<close>

lemmas read_defs = files_at_def comps_at_def entries_at_def processed_at_def infos_at_def
  scores_at_def nums_at_def refs_at_def trends_at_def

lemma unchanged_refl: "unchanged s s"
  by (simp add: unchanged_def)

lemma unchanged_trans: "unchanged s t \<Longrightarrow> unchanged t u \<Longrightarrow> unchanged s u"
  by (auto simp: unchanged_def)

lemma unchanged_alloc: "unchanged s (snd (alloc c s))"
  by (simp add: unchanged_def alloc_def)

lemma unchanged_alloc_after: "unchanged s0 s \<Longrightarrow> unchanged s0 (snd (alloc c s))"
  by (auto simp: unchanged_def alloc_def)

lemma unchanged_overwrite:
  "unchanged s0 s \<Longrightarrow> next_addr s0 \<le> a \<Longrightarrow> unchanged s0 (overwrite a c s)"
  by (auto simp: unchanged_def overwrite_def)

lemma unchanged_cells: "unchanged s s' \<Longrightarrow> a < next_addr s \<Longrightarrow> cells s' a = cells s a"
  by (simp add: unchanged_def)

lemma unchanged_next: "unchanged s s' \<Longrightarrow> next_addr s \<le> next_addr s'"
  by (simp add: unchanged_def)

lemma unchanged_reads:
  assumes "unchanged s s'" and "a < next_addr s"
  shows "files_at s' a = files_at s a" and "comps_at s' a = comps_at s a"
    and "entries_at s' a = entries_at s a"
  using unchanged_cells [OF assms] by (simp_all add: read_defs)

lemma overwrite_overwrite [simp]: "overwrite a c (overwrite a c' s) = overwrite a c s"
  by (simp add: overwrite_def)

lemma cells_overwrite [simp]: "cells (overwrite a c s) = (cells s)(a \<mapsto> c)"
  by (simp add: overwrite_def)

lemma next_overwrite [simp]: "next_addr (overwrite a c s) = next_addr s"
  by (simp add: overwrite_def)

lemma overwrite_same: "cells s a = Some c \<Longrightarrow> overwrite a c s = s"
  by (simp add: overwrite_def fun_upd_idem)

section \<open>The store: \<open>processFilesData\<close>\<close>

lemma record_previous_loop_st:
  "nums_at s ps = d \<Longrightarrow> cells s ps = Some (NumDict d) \<Longrightarrow>
   foldl (\<lambda>s file.
            overwrite ps (NumDict (obj_put (filepath file) (avg file) (nums_at s ps))) s) s fs
     = overwrite ps (NumDict (record_previous avg d fs)) s"
proof (induction fs arbitrary: s d)
  case Nil
  then show ?case by (simp add: record_previous_def overwrite_same)
next
  case (Cons f fs)
  let ?s = "overwrite ps (NumDict (obj_put (filepath f) (avg f) d)) s"
  have "foldl (\<lambda>s file.
            overwrite ps (NumDict (obj_put (filepath file) (avg file) (nums_at s ps))) s) ?s fs
        = overwrite ps (NumDict (record_previous avg (obj_put (filepath f) (avg f) d) fs)) ?s"
    by (rule Cons.IH) (simp_all add: nums_at_def)
  with Cons.prems show ?case
    by (simp add: record_previous_def)
qed

lemma processFilesData_st_spec:
  assumes cur: "currentFiles < next_addr s"
    and prev: "\<And>pf. previousFiles = Some pf \<Longrightarrow> pf < next_addr s"
  shows "\<exists>r s'. processFilesData_st currentFiles previousFiles s = (r, s')
           \<and> unchanged s s' \<and> next_addr s \<le> r \<and> r < next_addr s'
           \<and> processed_at s' r
               = processFilesData (files_at s currentFiles) (map_option (files_at s) previousFiles)"
proof -
  define ps where "ps = next_addr s"
  define s1 where "s1 = s\<lparr>cells := (cells s)(ps \<mapsto> NumDict []), next_addr := Suc ps\<rparr>"
  have alloc1: "alloc (NumDict []) s = (ps, s1)"
    by (simp add: alloc_def s1_def ps_def)
  have ps1: "nums_at s1 ps = []" "cells s1 ps = Some (NumDict [])"
    by (simp_all add: s1_def nums_at_def)
  have old1: "a < next_addr s \<Longrightarrow> files_at s1 a = files_at s a" for a
    by (simp add: s1_def files_at_def ps_def)
  define d where "d = (case previousFiles of
                         None \<Rightarrow> []
                       | Some pf \<Rightarrow> record_previous calculateFileAvgScore [] (files_at s pf))"
  define s2 where "s2 = (case previousFiles of
                  None \<Rightarrow> s1
                | Some pf \<Rightarrow>
                    foldl (\<lambda>s file.
                             overwrite ps
                               (NumDict (obj_put (filepath file) (calculateFileAvgScore file)
                                           (nums_at s ps))) s)
                      s1 (files_at s1 pf))"
  have s2_eq: "s2 = overwrite ps (NumDict d) s1"
  proof (cases previousFiles)
    case None
    then show ?thesis by (simp add: s2_def d_def overwrite_same ps1)
  next
    case (Some pf)
    then show ?thesis
      using record_previous_loop_st [OF ps1, of calculateFileAvgScore "files_at s1 pf"]
        old1 [OF prev [OF Some]]
      by (simp add: s2_def d_def)
  qed
  have nums2: "nums_at s2 ps = d"
    by (simp add: s2_eq nums_at_def)
  have files2: "files_at s2 currentFiles = files_at s currentFiles"
    using cur by (simp add: s2_eq files_at_def s1_def ps_def)
  have u1: "unchanged s s1"
    by (simp add: unchanged_def s1_def ps_def)
  have u2: "unchanged s s2"
    unfolding s2_eq by (rule unchanged_overwrite [OF u1]) (simp add: ps_def)
  have next2: "next_addr s2 = Suc (next_addr s)"
    by (simp add: s2_eq s1_def ps_def)
  define out where "out = map (process_file d) (files_at s currentFiles)"
  have run: "processFilesData_st currentFiles previousFiles s = alloc (ProcessedArray out) s2"
    unfolding processFilesData_st_def alloc1 Let_def prod.case s2_def [symmetric] nums2 files2
      out_def ..
  have out: "out = processFilesData (files_at s currentFiles)
                      (map_option (files_at s) previousFiles)"
    by (cases previousFiles) (simp_all add: processFilesData_def d_def out_def)
  show ?thesis
    unfolding run
    using unchanged_alloc_after [OF u2, of "ProcessedArray out"] next2 out
    by (auto simp: alloc_def processed_at_def)
qed

section \<open>The store: grouping\<close>

lemma process_components_st:
  assumes "previousFiles < next_addr s" and "\<forall>c \<in> set cs. ref_files c < next_addr s"
  shows "\<exists>s'. foldl (process_component previousFiles) (acc, s) cs
            = (acc @ concat (map (\<lambda>c. map (\<lambda>fileInfo. ProcessedFile.extend fileInfo
                                                     \<lparr>component = ref_name c\<rparr>)
                                        (processFilesData (files_at s (ref_files c))
                                           (Some (files_at s previousFiles))))
                               cs), s')
          \<and> unchanged s s'"
  using assms
proof (induction cs arbitrary: acc s)
  case Nil
  then show ?case by (simp add: unchanged_refl)
next
  case (Cons c cs)
  from processFilesData_st_spec [of "ref_files c" s "Some previousFiles"] Cons.prems
  obtain r s1 where r: "processFilesData_st (ref_files c) (Some previousFiles) s = (r, s1)"
    and u1: "unchanged s s1"
    and out: "processed_at s1 r
               = processFilesData (files_at s (ref_files c)) (Some (files_at s previousFiles))"
    by auto
  define xs where "xs = map (\<lambda>fileInfo. ProcessedFile.extend fileInfo \<lparr>component = ref_name c\<rparr>)
                          (processed_at s1 r)"
  define s2 where "s2 = snd (alloc (InfoArray xs) s1)"
  have step: "process_component previousFiles (acc, s) c = (acc @ xs, s2)"
    by (simp add: process_component_def r xs_def s2_def alloc_def infos_at_def)
  have u2: "unchanged s s2"
    unfolding s2_def by (rule unchanged_alloc_after [OF u1])
  have p2: "previousFiles < next_addr s2" "\<forall>c \<in> set cs. ref_files c < next_addr s2"
    using Cons.prems unchanged_next [OF u2] by auto
  from Cons.IH [OF p2, of "acc @ xs"]
  obtain s' where rest: "foldl (process_component previousFiles) (acc @ xs, s2) cs
            = ((acc @ xs) @ concat (map (\<lambda>c. map (\<lambda>fileInfo. ProcessedFile.extend fileInfo
                                                     \<lparr>component = ref_name c\<rparr>)
                                        (processFilesData (files_at s2 (ref_files c))
                                           (Some (files_at s2 previousFiles))))
                               cs), s')"
    and u': "unchanged s2 s'"
    by blast
  have same: "files_at s2 previousFiles = files_at s previousFiles"
    "\<forall>c \<in> set cs. files_at s2 (ref_files c) = files_at s (ref_files c)"
    using Cons.prems unchanged_reads(1) [OF u2] by auto
  have "map (\<lambda>c. map (\<lambda>fileInfo. ProcessedFile.extend fileInfo \<lparr>component = ref_name c\<rparr>)
                    (processFilesData (files_at s2 (ref_files c))
                       (Some (files_at s2 previousFiles)))) cs
        = map (\<lambda>c. map (\<lambda>fileInfo. ProcessedFile.extend fileInfo \<lparr>component = ref_name c\<rparr>)
                    (processFilesData (files_at s (ref_files c))
                       (Some (files_at s previousFiles)))) cs"
    using same by (intro map_cong) simp_all
  with rest step out u2 u' show ?case
    by (auto simp: xs_def intro: unchanged_trans)
qed

lemma push_loop_st:
  assumes "refs_at s allFiles = kas" and "distinct (map snd kas)" and "distinct (map fst kas)"
    and "allFiles \<notin> snd ` set kas"
    and "\<forall>x \<in> set xs. categorizeFileByPath (out_filepath x) \<in> fst ` set kas"
  shows "\<exists>s'. forEach_err (push_info allFiles) xs s = Inr s'
          \<and> next_addr s' = next_addr s
          \<and> (\<forall>a. a \<notin> snd ` set kas \<longrightarrow> cells s' a = cells s a)
          \<and> (\<forall>(k, a) \<in> set kas.
                infos_at s' a
                  = infos_at s a @ filter (\<lambda>x. categorizeFileByPath (out_filepath x) = k) xs)"
  using assms
proof (induction xs arbitrary: s)
  case Nil
  then show ?case by auto
next
  case (Cons x xs)
  let ?k = "categorizeFileByPath (out_filepath x)"
  from Cons.prems obtain arr where arr: "map_of kas ?k = Some arr"
    by (metis list.set_intros(1) map_of_eq_None_iff not_Some_eq)
  then have mem: "(?k, arr) \<in> set kas"
    by (rule map_of_SomeD)
  define s1 where "s1 = overwrite arr (InfoArray (infos_at s arr @ [x])) s"
  have step: "push_info allFiles s x = Inr s1"
    using Cons.prems(1) arr by (simp add: push_info_def s1_def)
  have ne: "arr \<noteq> allFiles"
    using mem Cons.prems(4) by force
  have refs1: "refs_at s1 allFiles = kas"
    using Cons.prems(1) ne by (simp add: s1_def refs_at_def)
  from Cons.IH [OF refs1 Cons.prems(2,3,4)] Cons.prems(5)
  obtain s' where run: "forEach_err (push_info allFiles) xs s1 = Inr s'"
    and nx: "next_addr s' = next_addr s1"
    and other: "\<forall>a. a \<notin> snd ` set kas \<longrightarrow> cells s' a = cells s1 a"
    and buckets: "\<forall>(k, a) \<in> set kas.
                infos_at s' a
                  = infos_at s1 a @ filter (\<lambda>x. categorizeFileByPath (out_filepath x) = k) xs"
    by auto
  have key_of: "(k, arr) \<in> set kas \<Longrightarrow> k = ?k" for k
    using mem Cons.prems(2) by (metis distinct_map inj_on_def snd_conv prod.inject)
  have addr_of: "(?k, a) \<in> set kas \<Longrightarrow> a = arr" for a
    using mem Cons.prems(3) by (metis eq_key_imp_eq_value)
  have "infos_at s' a
          = infos_at s a @ filter (\<lambda>y. categorizeFileByPath (out_filepath y) = k) (x # xs)"
    if ka: "(k, a) \<in> set kas" for k a
  proof (cases "a = arr")
    case True
    with ka key_of have "k = ?k" by simp
    with buckets ka True show ?thesis
      by (auto simp: s1_def infos_at_def)
  next
    case False
    with ka addr_of have "k \<noteq> ?k" by auto
    with buckets ka False show ?thesis
      by (auto simp: s1_def infos_at_def)
  qed
  moreover have "\<forall>a. a \<notin> snd ` set kas \<longrightarrow> cells s' a = cells s a"
    using other mem by (force simp: s1_def)
  ultimately show ?case
    using step run nx by (auto simp: s1_def)
qed

lemma sort_loop_st:
  assumes "refs_at s allFiles = kas" and "distinct (map snd kas)" and "distinct (map fst kas)"
    and "allFiles \<notin> snd ` set kas"
    and "distinct ks" and "set ks \<subseteq> fst ` set kas"
  shows "\<exists>s'. foldl (sort_bucket allFiles) s ks = s'
          \<and> next_addr s' = next_addr s
          \<and> (\<forall>a. a \<notin> snd ` set kas \<longrightarrow> cells s' a = cells s a)
          \<and> (\<forall>(k, a) \<in> set kas.
                infos_at s' a
                  = (if k \<in> set ks then js_sort by_score (infos_at s a) else infos_at s a))"
  using assms
proof (induction ks arbitrary: s)
  case Nil
  then show ?case by auto
next
  case (Cons key ks)
  from Cons.prems obtain arr where arr: "map_of kas key = Some arr"
    by (metis list.set_intros(1) map_of_eq_None_iff not_Some_eq subsetD)
  then have mem: "(key, arr) \<in> set kas"
    by (rule map_of_SomeD)
  define s1 where "s1 = overwrite arr (InfoArray (js_sort by_score (infos_at s arr))) s"
  have step: "sort_bucket allFiles s key = s1"
    using Cons.prems(1) arr by (simp add: sort_bucket_def s1_def)
  have ne: "arr \<noteq> allFiles"
    using mem Cons.prems(4) by force
  have refs1: "refs_at s1 allFiles = kas"
    using Cons.prems(1) ne by (simp add: s1_def refs_at_def)
  have ks: "distinct ks" "set ks \<subseteq> fst ` set kas" "key \<notin> set ks"
    using Cons.prems by auto
  from Cons.IH [OF refs1 Cons.prems(2,3,4) ks(1,2)]
  have nx: "next_addr (foldl (sort_bucket allFiles) s1 ks) = next_addr s1"
    and other: "\<forall>a. a \<notin> snd ` set kas
                  \<longrightarrow> cells (foldl (sort_bucket allFiles) s1 ks) a = cells s1 a"
    and buckets: "\<forall>(k, a) \<in> set kas.
                infos_at (foldl (sort_bucket allFiles) s1 ks) a
                  = (if k \<in> set ks then js_sort by_score (infos_at s1 a) else infos_at s1 a)"
    by auto
  have key_of: "(k, arr) \<in> set kas \<Longrightarrow> k = key" for k
    using mem Cons.prems(2) by (metis distinct_map inj_on_def snd_conv prod.inject)
  have addr_of: "(key, a) \<in> set kas \<Longrightarrow> a = arr" for a
    using mem Cons.prems(3) by (metis eq_key_imp_eq_value)
  have "infos_at (foldl (sort_bucket allFiles) s1 ks) a
          = (if k \<in> set (key # ks) then js_sort by_score (infos_at s a) else infos_at s a)"
    if ka: "(k, a) \<in> set kas" for k a
  proof (cases "a = arr")
    case True
    with ka key_of have "k = key" by simp
    with buckets ka True ks(3) show ?thesis
      by (auto simp: s1_def infos_at_def)
  next
    case False
    with ka addr_of have "k \<noteq> key" by auto
    with buckets ka False show ?thesis
      by (auto simp: s1_def infos_at_def)
  qed
  moreover have "\<forall>a. a \<notin> snd ` set kas
                  \<longrightarrow> cells (foldl (sort_bucket allFiles) s1 ks) a = cells s a"
    using other mem by (force simp: s1_def)
  ultimately show ?case
    using step nx by (auto simp: s1_def)
qed

lemma history_of_unchanged:
  assumes "history_allocated s h" and "unchanged s s'"
  shows "history_of s' h = history_of s h"
proof -
  have e: "entries_at s' h = entries_at s h"
    using assms by (simp add: history_allocated_def unchanged_reads)
  have c: "components_of s' (ref_components entry) = components_of s (ref_components entry)"
    if "entry \<in> set (entries_at s h)" for entry
  proof -
    from that assms(1) have a: "ref_components entry < next_addr s"
      and f: "\<forall>compo \<in> set (comps_at s (ref_components entry)). ref_files compo < next_addr s"
      by (auto simp: history_allocated_def list_all_iff)
    have "comps_at s' (ref_components entry) = comps_at s (ref_components entry)"
      using a assms(2) by (simp add: unchanged_reads)
    moreover have "\<forall>compo \<in> set (comps_at s (ref_components entry)).
                     files_at s' (ref_files compo) = files_at s (ref_files compo)"
      using f assms(2) by (simp add: unchanged_reads)
    ultimately show ?thesis
      by (simp add: components_of_def)
  qed
  show ?thesis
    unfolding history_of_def e by (rule map_cong) (simp_all add: c)
qed

lemma unchanged_reads_more:
  assumes "unchanged s s'" and "a < next_addr s"
  shows "infos_at s' a = infos_at s a" and "refs_at s' a = refs_at s a"
    and "scores_at s' a = scores_at s a" and "trends_at s' a = trends_at s a"
  using unchanged_cells [OF assms] by (simp_all add: read_defs)

lemma components_of_unchanged:
  assumes "unchanged s s'" and "a < next_addr s"
    and "\<forall>compo \<in> set (comps_at s a). ref_files compo < next_addr s"
  shows "components_of s' a = components_of s a"
  using assms by (simp add: components_of_def unchanged_reads)

lemma new_allFiles_spec:
  "\<exists>a s' kas. new_allFiles s = (a, s') \<and> unchanged s s' \<and> a < next_addr s'
      \<and> refs_at s' a = kas \<and> map fst kas = labels \<and> distinct (map snd kas)
      \<and> a \<notin> snd ` set kas
      \<and> (\<forall>b \<in> snd ` set kas. next_addr s \<le> b \<and> b < next_addr s' \<and> infos_at s' b = [])"
  by (auto simp: new_allFiles_def alloc_def Let_def unchanged_def read_defs labels_def)

lemma previous_files_st_spec:
  "\<exists>a s'. previous_files_st previousEntry s = (a, s') \<and> unchanged s s' \<and> a < next_addr s'
      \<and> files_at s' a
          = (case previousEntry of
               None \<Rightarrow> []
             | Some entry \<Rightarrow> concat (map files (components_of s (ref_components entry))))"
  by (simp add: previous_files_st_def alloc_def unchanged_def files_at_def components_of_def
      comp_def split: option.splits)

lemma processed_files_st_spec:
  assumes "previousFiles < next_addr s"
    and "\<forall>c \<in> set (comps_at s (ref_components latestEntry)). ref_files c < next_addr s"
  shows "\<exists>a s'. processed_files_st previousFiles latestEntry s = (a, s') \<and> unchanged s s'
      \<and> infos_at s' a
          = concat (map (\<lambda>c. map (\<lambda>fileInfo. ProcessedFile.extend fileInfo
                                                     \<lparr>component = ref_name c\<rparr>)
                                  (processFilesData (files_at s (ref_files c))
                                     (Some (files_at s previousFiles))))
                      (comps_at s (ref_components latestEntry)))"
proof -
  from process_components_st [OF assms, of "[]"]
  obtain s1 where run: "foldl (process_component previousFiles) ([], s)
                          (comps_at s (ref_components latestEntry))
            = (concat (map (\<lambda>c. map (\<lambda>fileInfo. ProcessedFile.extend fileInfo
                                                     \<lparr>component = ref_name c\<rparr>)
                                        (processFilesData (files_at s (ref_files c))
                                           (Some (files_at s previousFiles))))
                         (comps_at s (ref_components latestEntry))), s1)"
    and u: "unchanged s s1"
    by auto
  show ?thesis
    using unchanged_alloc_after [OF u]
    by (simp add: processed_files_st_def run alloc_def infos_at_def)
qed

lemma group_and_sort_spec:
  assumes "refs_at s allFiles = kas" and "distinct (map snd kas)" and "map fst kas = labels"
    and "allFiles \<notin> snd ` set kas"
  shows "\<exists>s'. group_and_sort allFiles processedFiles s = Inr (allFiles, s')
          \<and> next_addr s' = next_addr s
          \<and> (\<forall>a. a \<notin> snd ` set kas \<longrightarrow> cells s' a = cells s a)
          \<and> (\<forall>(k, a) \<in> set kas.
                infos_at s' a
                  = js_sort by_score
                      (infos_at s a
                       @ filter (\<lambda>x. categorizeFileByPath (out_filepath x) = k)
                           (infos_at s processedFiles)))"
proof -
  have dk: "distinct (map fst kas)"
    using assms(3) by (simp add: distinct_labels)
  have cover: "\<forall>x \<in> set (infos_at s processedFiles).
                 categorizeFileByPath (out_filepath x) \<in> fst ` set kas"
    using categorizeFileByPath_labels assms(3) by (metis list.set_map)
  from push_loop_st [OF assms(1,2) dk assms(4) cover]
  obtain s1 where push: "forEach_err (push_info allFiles) (infos_at s processedFiles) s = Inr s1"
    and n1: "next_addr s1 = next_addr s"
    and o1: "\<forall>a. a \<notin> snd ` set kas \<longrightarrow> cells s1 a = cells s a"
    and b1: "\<forall>(k, a) \<in> set kas.
                infos_at s1 a
                  = infos_at s a @ filter (\<lambda>x. categorizeFileByPath (out_filepath x) = k)
                                     (infos_at s processedFiles)"
    by blast
  have refs1: "refs_at s1 allFiles = kas"
    using o1 assms(1,4) by (simp add: refs_at_def)
  have ks: "distinct (map fst kas)" "set (map fst kas) \<subseteq> fst ` set kas"
    using dk by auto
  from sort_loop_st [OF refs1 assms(2) dk assms(4) ks]
  have n2: "next_addr (foldl (sort_bucket allFiles) s1 (map fst kas)) = next_addr s1"
    and o2: "\<forall>a. a \<notin> snd ` set kas
               \<longrightarrow> cells (foldl (sort_bucket allFiles) s1 (map fst kas)) a = cells s1 a"
    and b2: "\<forall>(k, a) \<in> set kas.
                infos_at (foldl (sort_bucket allFiles) s1 (map fst kas)) a
                  = (if k \<in> set (map fst kas) then js_sort by_score (infos_at s1 a)
                     else infos_at s1 a)"
    by auto
  have "\<forall>(k, a) \<in> set kas.
                infos_at (foldl (sort_bucket allFiles) s1 (map fst kas)) a
                  = js_sort by_score
                      (infos_at s a
                       @ filter (\<lambda>x. categorizeFileByPath (out_filepath x) = k)
                           (infos_at s processedFiles))"
    using b1 b2 by force
  then show ?thesis
    using push n1 n2 o1 o2 refs1 by (simp add: group_and_sort_def)
qed

lemma latest_entry_history_of:
  assumes "entries_at s h \<noteq> []"
  shows "components (results (latest_entry (history_of s h)))
           = components_of s (ref_components (entries_at s h ! (length (entries_at s h) - 1)))"
  using assms by (simp add: latest_entry_def history_of_def)

lemma previous_files_history_of:
  "previous_files (history_of s h)
     = (case (if length (entries_at s h) > 1
              then Some (entries_at s h ! (length (entries_at s h) - 2)) else None) of
          None \<Rightarrow> []
        | Some entry \<Rightarrow> concat (map files (components_of s (ref_components entry))))"
  by (simp add: previous_files_def previous_entry_def history_of_def all_files_def)

lemma getFilesGroupedByType_st_spec:
  assumes ha: "history_allocated s h"
  shows "\<exists>r s'. getFilesGroupedByType_st h s = Inr (r, s') \<and> unchanged s s'
           \<and> getFilesGroupedByType_history (history_of s h) = Inr (buckets_of s' r)"
proof (cases "entries_at s h = []")
  case True
  then have "history_of s h = []"
    by (simp add: history_of_def)
  with True show ?thesis
    using unchanged_alloc [of s "RefDict []"]
    by (simp add: getFilesGroupedByType_st_def getFilesGroupedByType_history_def
        alloc_def buckets_of_def refs_at_def)
next
  case False
  define entries where "entries = entries_at s h"
  define latestEntry where "latestEntry = entries ! (length entries - 1)"
  define previousEntry where
    "previousEntry = (if length entries > 1 then Some (entries ! (length entries - 2)) else None)"
  define H where "H = history_of s h"
  have H_ne: "H \<noteq> []"
    using False by (simp add: H_def history_of_def)
  have latest_mem: "latestEntry \<in> set entries"
    using False by (simp add: latestEntry_def entries_def)
  have prev_mem: "previousEntry = Some e \<Longrightarrow> e \<in> set entries" for e
    by (auto simp: previousEntry_def split: if_splits)
  have entry_alloc: "e \<in> set entries \<Longrightarrow> ref_components e < next_addr s
        \<and> (\<forall>c \<in> set (comps_at s (ref_components e)). ref_files c < next_addr s)" for e
    using ha by (auto simp: history_allocated_def entries_def list_all_iff)
  \<comment> \<open>the literal of \<open>allFiles\<close>\<close>
  from new_allFiles_spec [of s]
  obtain allFiles s1 kas where a1: "new_allFiles s = (allFiles, s1)"
    and u1: "unchanged s s1" and af1: "allFiles < next_addr s1"
    and refs1: "refs_at s1 allFiles = kas" and keys: "map fst kas = labels"
    and dist: "distinct (map snd kas)" and notin: "allFiles \<notin> snd ` set kas"
    and fresh: "\<forall>b \<in> snd ` set kas. next_addr s \<le> b \<and> b < next_addr s1 \<and> infos_at s1 b = []"
    by blast
  \<comment> \<open>\<open>previousFiles\<close>\<close>
  from previous_files_st_spec [of previousEntry s1]
  obtain previousFiles s2 where a2: "previous_files_st previousEntry s1 = (previousFiles, s2)"
    and u2: "unchanged s1 s2" and pf2: "previousFiles < next_addr s2"
    and pf: "files_at s2 previousFiles
          = (case previousEntry of
               None \<Rightarrow> []
             | Some entry \<Rightarrow> concat (map files (components_of s1 (ref_components entry))))"
    by blast
  have "components_of s1 (ref_components e) = components_of s (ref_components e)"
    if "previousEntry = Some e" for e
    using entry_alloc [OF prev_mem [OF that]] u1 by (intro components_of_unchanged) auto
  then have pf': "files_at s2 previousFiles = previous_files H"
    unfolding pf H_def previous_files_history_of
    by (simp add: previousEntry_def entries_def split: option.splits if_splits)
  have u02: "unchanged s s2"
    using u1 u2 by (rule unchanged_trans)
  \<comment> \<open>\<open>processedFiles\<close>\<close>
  have comps2: "comps_at s2 (ref_components latestEntry) = comps_at s (ref_components latestEntry)"
    using entry_alloc [OF latest_mem] u02 by (simp add: unchanged_reads)
  have files_alloc2: "\<forall>c \<in> set (comps_at s2 (ref_components latestEntry)).
                        ref_files c < next_addr s2"
    unfolding comps2 using entry_alloc [OF latest_mem] unchanged_next [OF u02] by force
  from processed_files_st_spec [OF pf2 files_alloc2]
  obtain processedFiles s3
    where a3: "processed_files_st previousFiles latestEntry s2 = (processedFiles, s3)"
    and u3: "unchanged s2 s3"
    and infos3: "infos_at s3 processedFiles
          = concat (map (\<lambda>c. map (\<lambda>fileInfo. ProcessedFile.extend fileInfo
                                                     \<lparr>component = ref_name c\<rparr>)
                                  (processFilesData (files_at s2 (ref_files c))
                                     (Some (files_at s2 previousFiles))))
                      (comps_at s2 (ref_components latestEntry)))"
    by blast
  have files2: "\<forall>c \<in> set (comps_at s (ref_components latestEntry)).
                  files_at s2 (ref_files c) = files_at s (ref_files c)"
    using entry_alloc [OF latest_mem] u02 by (simp add: unchanged_reads)
  have "infos_at s3 processedFiles
          = concat (map (\<lambda>compo.
                  map (\<lambda>fileInfo. ProcessedFile.extend fileInfo \<lparr>component = name compo\<rparr>)
                    (processFilesData (files compo) (Some (previous_files H))))
             (components (results (latest_entry H))))"
    unfolding infos3 comps2 pf' H_def latest_entry_history_of [OF False]
      entries_def [symmetric] latestEntry_def [symmetric] components_of_def
    using files2 by (simp add: comp_def cong: map_cong)
  then have infos: "infos_at s3 processedFiles = latest_infos calculateFileAvgScore H"
    by (simp add: processed_files_latest_infos)
  \<comment> \<open>the two loops\<close>
  have u13: "unchanged s1 s3"
    using u2 u3 by (rule unchanged_trans)
  have refs3: "refs_at s3 allFiles = kas"
    using refs1 af1 u13 by (simp add: unchanged_reads_more)
  have empty3: "\<forall>b \<in> snd ` set kas. infos_at s3 b = []"
    using fresh u13 by (simp add: unchanged_reads_more)
  from group_and_sort_spec [OF refs3 dist keys notin, of processedFiles]
  obtain s4 where a4: "group_and_sort allFiles processedFiles s3 = Inr (allFiles, s4)"
    and n4: "next_addr s4 = next_addr s3"
    and o4: "\<forall>a. a \<notin> snd ` set kas \<longrightarrow> cells s4 a = cells s3 a"
    and b4: "\<forall>(k, a) \<in> set kas.
                infos_at s4 a
                  = js_sort by_score
                      (infos_at s3 a
                       @ filter (\<lambda>x. categorizeFileByPath (out_filepath x) = k)
                           (infos_at s3 processedFiles))"
    by blast
  have run: "getFilesGroupedByType_st h s = Inr (allFiles, s4)"
    unfolding getFilesGroupedByType_st_def Let_def entries_def [symmetric]
      latestEntry_def [symmetric] previousEntry_def [symmetric] a1 prod.case a2 a3 a4
    using False by (simp add: entries_def)
  have u03: "unchanged s s3"
    using u02 u3 by (rule unchanged_trans)
  have u04: "unchanged s s4"
    unfolding unchanged_def
  proof (intro conjI allI impI)
    show "next_addr s \<le> next_addr s4"
      using n4 unchanged_next [OF u03] by simp
    fix a assume a: "a < next_addr s"
    then have "a \<notin> snd ` set kas"
      using fresh by auto
    with o4 have "cells s4 a = cells s3 a" by simp
    with a show "cells s4 a = cells s a"
      using unchanged_cells [OF u03] by simp
  qed
  have refs4: "refs_at s4 allFiles = kas"
    using o4 notin refs3 by (simp add: refs_at_def)
  have "buckets_of s4 allFiles
          = map (\<lambda>(k, a). (k, js_sort by_score
                   (filter (\<lambda>x. categorizeFileByPath (out_filepath x) = k)
                      (latest_infos calculateFileAvgScore H)))) kas"
    unfolding buckets_of_def refs4
  proof (intro map_cong refl)
    fix x assume x: "x \<in> set kas"
    obtain k a where ka: "x = (k, a)" by (cases x)
    from x ka empty3 have "infos_at s3 a = []" by force
    moreover from x ka b4 have "infos_at s4 a
                  = js_sort by_score
                      (infos_at s3 a
                       @ filter (\<lambda>x. categorizeFileByPath (out_filepath x) = k)
                           (infos_at s3 processedFiles))"
      by auto
    ultimately show "(case x of (key, arr) \<Rightarrow> (key, infos_at s4 arr))
                     = (case x of (k, a) \<Rightarrow> (k, js_sort by_score
                   (filter (\<lambda>x. categorizeFileByPath (out_filepath x) = k)
                      (latest_infos calculateFileAvgScore H))))"
      using infos ka by simp
  qed
  also have "\<dots> = map (\<lambda>k. (k, js_sort by_score
                   (filter (\<lambda>x. categorizeFileByPath (out_filepath x) = k)
                      (latest_infos calculateFileAvgScore H)))) labels"
    unfolding keys [symmetric] by (simp add: comp_def case_prod_unfold)
  finally have "getFilesGroupedByType_history H = Inr (buckets_of s4 allFiles)"
    using getFilesGroupedByType_history_eq [OF H_ne] by simp
  with run u04 show ?thesis
    unfolding H_def by blast
qed

section \<open>The store: trends\<close>

lemma obj_set_new: "k \<notin> fst ` set kvs \<Longrightarrow> obj_set k v kvs = kvs @ [(k, v)]"
  by (induction kvs) auto

lemma map_update_at:
  "distinct (map fst kas) \<Longrightarrow> distinct (map snd kas) \<Longrightarrow> (k, a) \<in> set kas \<Longrightarrow>
   map (\<lambda>(k', a'). (k', if a' = a then v else g a')) kas
     = obj_set k v (map (\<lambda>(k', a'). (k', g a')) kas)"
proof (induction kas)
  case Nil
  then show ?case by simp
next
  case (Cons x kas)
  obtain k0 a0 where x: "x = (k0, a0)" by (cases x)
  show ?case
  proof (cases "k0 = k")
    case True
    with Cons.prems x have a0: "a0 = a"
      by (auto simp: image_iff)
    have "a \<notin> snd ` set kas"
      using Cons.prems(2) x a0 by simp
    then have "map (\<lambda>(k', a'). (k', if a' = a then v else g a')) kas
                 = map (\<lambda>(k', a'). (k', g a')) kas"
      by (intro map_cong) (auto simp: image_iff)
    with True x a0 show ?thesis by simp
  next
    case False
    with Cons.prems x have mem: "(k, a) \<in> set kas" by auto
    then have "a0 \<noteq> a"
      using Cons.prems(2) x by (auto simp: image_iff)
    with Cons False x mem show ?thesis by simp
  qed
qed

lemma fileScores_rep_unchanged: "fileScores_rep s0 fs s F \<Longrightarrow> unchanged s0 s"
  by (simp add: fileScores_rep_def)

lemma fileScores_outcome_Inl:
  "fileScores_outcome s0 fs (Inl (e, s)) r \<longleftrightarrow> r = Inl e \<and> unchanged s0 s"
  by (simp add: fileScores_outcome_def)

lemma fileScores_outcome_Inr:
  "fileScores_outcome s0 fs (Inr s) r \<longleftrightarrow> (\<exists>F. r = Inr F \<and> fileScores_rep s0 fs s F)"
  by (simp add: fileScores_outcome_def)

text \<open>One turn of the innermost loop.\<close>

lemma observe_st_rep:
  assumes "fileScores_rep s0 fs s F"
  shows "fileScores_outcome s0 fs (observe_st fs s f) (observe calculateFileAvgScore F f)"
proof -
  from assms obtain kas where u: "unchanged s0 s" and lo: "next_addr s0 \<le> fs"
    and hi: "fs < next_addr s" and cell: "cells s fs = Some (RefDict kas)"
    and dk: "distinct (map fst kas)" and da: "distinct (map snd kas)"
    and notin: "fs \<notin> snd ` set kas"
    and fresh: "\<forall>a \<in> snd ` set kas. next_addr s0 \<le> a \<and> a < next_addr s"
    and rep: "map (\<lambda>(k, a). (k, scores_at s a)) kas = F"
    unfolding fileScores_rep_def by blast
  let ?p = "filepath f" and ?v = "calculateFileAvgScore f"
  have refs: "refs_at s fs = kas"
    using cell by (simp add: refs_at_def)
  have lookup: "map_of F ?p = map_option (scores_at s) (map_of kas ?p)"
    unfolding rep [symmetric] by (simp add: map_of_map)
  show ?thesis
  proof (cases "map_of kas ?p")
    case None
    show ?thesis
    proof (cases "inherited ?p")
      case True
      have "observe_st fs s f = Inl (TypeError, s)"
        using None True
        by (simp add: observe_st_def ensure_array_def push_score_def refs obj_get_def)
      moreover have "observe calculateFileAvgScore F f = Inl TypeError"
        using None True by (simp add: observe_cases lookup)
      ultimately show ?thesis
        using u by (simp add: fileScores_outcome_def)
    next
      case False
      then have proto: "?p \<noteq> ''__proto__''"
        using inherited_proto by auto
      define arr where "arr = next_addr s"
      define s' where "s' = s\<lparr>cells := (cells s)(arr \<mapsto> ScoreArray [?v],
                                  fs \<mapsto> RefDict (kas @ [(?p, arr)])),
                             next_addr := Suc arr\<rparr>"
      have key: "?p \<notin> fst ` set kas"
        using None by (simp add: map_of_eq_None_iff)
      have ne: "arr \<noteq> fs"
        using hi by (simp add: arr_def)
      define s1 where "s1 = s\<lparr>cells := (cells s)(arr \<mapsto> ScoreArray [],
                                  fs \<mapsto> RefDict (kas @ [(?p, arr)])),
                             next_addr := Suc arr\<rparr>"
      have "refs_at (snd (alloc (ScoreArray []) s)) fs = kas"
        using ne by (simp add: alloc_def refs_at_def cell arr_def)
      then have first: "ensure_array fs ?p s = s1"
        using key proto False
        by (simp add: ensure_array_def refs None Let_def case_prod_unfold obj_set_new
            obj_get_def obj_put_def)
          (simp add: alloc_def overwrite_def s1_def arr_def)
      have look1: "obj_get (refs_at s1 fs) ?p = Own arr"
        by (simp add: s1_def refs_at_def map_add_def None obj_get_def)
      have "scores_at s1 arr = []"
        using ne by (simp add: s1_def scores_at_def)
      then have run: "observe_st fs s f = Inr s'"
        unfolding observe_st_def first push_score_def look1
        using ne by (simp add: overwrite_def s1_def s'_def fun_upd_twist)
      have Fnew: "observe calculateFileAvgScore F f = Inr (F @ [(?p, [?v])])"
      proof -
        have k: "?p \<notin> fst ` set F"
          using key rep by force
        then have n: "map_of F ?p = None"
          by (simp add: map_of_eq_None_iff)
        show ?thesis
          using k False by (simp add: observe_cases n obj_set_new)
      qed
      have old: "a \<in> snd ` set kas \<Longrightarrow> scores_at s' a = scores_at s a" for a
        using fresh notin by (auto simp: s'_def scores_at_def arr_def)
      have "map (\<lambda>(k, a). (k, scores_at s' a)) kas = F"
        unfolding rep [symmetric] by (intro map_cong refl) (auto simp: old rev_image_eqI)
      then have rep': "map (\<lambda>(k, a). (k, scores_at s' a)) (kas @ [(?p, arr)]) = F @ [(?p, [?v])]"
        using ne by (simp add: s'_def scores_at_def)
      have "arr \<notin> snd ` set kas"
        using fresh by (auto simp: arr_def)
      then have "fileScores_rep s0 fs s' (F @ [(?p, [?v])])"
        unfolding fileScores_rep_def
        using u lo hi dk da notin fresh key rep'
        by (intro conjI exI [of _ "kas @ [(?p, arr)]"])
          (auto simp: s'_def unchanged_def arr_def)
      with run Fnew show ?thesis
        by (simp add: fileScores_outcome_def)
    qed
  next
    case (Some arr)
    then have mem: "(?p, arr) \<in> set kas"
      by (rule map_of_SomeD)
    define s' where "s' = overwrite arr (ScoreArray (scores_at s arr @ [?v])) s"
    have ne: "arr \<noteq> fs"
      using mem notin by force
    have run: "observe_st fs s f = Inr s'"
      by (simp add: observe_st_def ensure_array_def push_score_def refs Some s'_def obj_get_def)
    have Fnew: "observe calculateFileAvgScore F f = Inr (obj_set ?p (scores_at s arr @ [?v]) F)"
      by (simp add: observe_cases lookup Some)
    have "map (\<lambda>(k, a). (k, scores_at s' a)) kas
            = map (\<lambda>(k', a'). (k', if a' = arr then scores_at s arr @ [?v] else scores_at s a')) kas"
      by (intro map_cong refl) (auto simp: s'_def scores_at_def)
    also have "\<dots> = obj_set ?p (scores_at s arr @ [?v]) F"
      unfolding rep [symmetric] using dk da mem by (rule map_update_at)
    finally have rep': "map (\<lambda>(k, a). (k, scores_at s' a)) kas
                          = obj_set ?p (scores_at s arr @ [?v]) F" .
    have "next_addr s0 \<le> arr"
      using fresh mem by force
    then have u': "unchanged s0 s'"
      unfolding s'_def by (rule unchanged_overwrite [OF u])
    have "fileScores_rep s0 fs s' (obj_set ?p (scores_at s arr @ [?v]) F)"
      unfolding fileScores_rep_def
      using u' lo hi dk da notin fresh rep' cell ne
      by (intro conjI exI [of _ kas]) (auto simp: s'_def)
    with run Fnew show ?thesis
      by (simp add: fileScores_outcome_def)
  qed
qed

text \<open>The three loops, from the innermost.\<close>

lemma observe_files_rep:
  "fileScores_rep s0 fs s F \<Longrightarrow>
   fileScores_outcome s0 fs (forEach_st (observe_st fs) xs s)
     (forEach_err (observe calculateFileAvgScore) xs F)"
proof (induction xs arbitrary: s F)
  case Nil
  then show ?case by (simp add: fileScores_outcome_def)
next
  case (Cons x xs)
  show ?case
  proof (cases "observe_st fs s x")
    case (Inl err)
    with observe_st_rep [OF Cons.prems, of x] show ?thesis
      by (cases err) (simp add: fileScores_outcome_Inl)
  next
    case (Inr s')
    with observe_st_rep [OF Cons.prems, of x] obtain F'
      where "observe calculateFileAvgScore F x = Inr F'" and "fileScores_rep s0 fs s' F'"
      by (auto simp: fileScores_outcome_Inr)
    with Cons.IH [of s' F'] Inr show ?thesis
      by simp
  qed
qed

lemma observe_components_rep:
  assumes "fileScores_rep s0 fs s F" and "\<forall>c \<in> set cs. ref_files c < next_addr s0"
  shows "fileScores_outcome s0 fs
           (forEach_st (\<lambda>s compo. forEach_st (observe_st fs) (files_at s (ref_files compo)) s)
              cs s)
           (forEach_err (\<lambda>F compo. forEach_err (observe calculateFileAvgScore)
                                     (files_at s0 (ref_files compo)) F) cs F)"
  using assms
proof (induction cs arbitrary: s F)
  case Nil
  then show ?case by (simp add: fileScores_outcome_def)
next
  case (Cons c cs)
  have same: "files_at s (ref_files c) = files_at s0 (ref_files c)"
    using Cons.prems by (simp add: unchanged_reads fileScores_rep_unchanged)
  have rest: "\<forall>c \<in> set cs. ref_files c < next_addr s0"
    using Cons.prems(2) by simp
  let ?inner = "forEach_st (observe_st fs) (files_at s0 (ref_files c)) s"
  note inner = observe_files_rep [OF Cons.prems(1), of "files_at s0 (ref_files c)"]
  show ?case
  proof (cases ?inner)
    case (Inl err)
    with inner show ?thesis
      by (cases err) (simp add: fileScores_outcome_Inl same)
  next
    case (Inr s')
    with inner obtain F'
      where "forEach_err (observe calculateFileAvgScore) (files_at s0 (ref_files c)) F = Inr F'"
        and "fileScores_rep s0 fs s' F'"
      by (auto simp: fileScores_outcome_Inr)
    with Cons.IH [OF _ rest, of s' F'] Inr show ?thesis
      by (simp add: same)
  qed
qed

lemma observe_entries_rep:
  assumes "fileScores_rep s0 fs s F"
    and "\<forall>e \<in> set es. ref_components e < next_addr s0
           \<and> (\<forall>c \<in> set (comps_at s0 (ref_components e)). ref_files c < next_addr s0)"
  shows "fileScores_outcome s0 fs (collect_scores_st fs es s)
           (forEach_err
              (\<lambda>F entry.
                 forEach_err (\<lambda>F compo. forEach_err (observe calculateFileAvgScore)
                                           (files_at s0 (ref_files compo)) F)
                   (comps_at s0 (ref_components entry)) F) es F)"
  using assms
proof (induction es arbitrary: s F)
  case Nil
  then show ?case by (simp add: fileScores_outcome_def collect_scores_st_def)
next
  case (Cons e es)
  have same: "comps_at s (ref_components e) = comps_at s0 (ref_components e)"
    using Cons.prems by (simp add: unchanged_reads fileScores_rep_unchanged)
  have here: "\<forall>c \<in> set (comps_at s0 (ref_components e)). ref_files c < next_addr s0"
    and rest: "\<forall>e \<in> set es. ref_components e < next_addr s0
           \<and> (\<forall>c \<in> set (comps_at s0 (ref_components e)). ref_files c < next_addr s0)"
    using Cons.prems(2) by simp_all
  let ?inner = "forEach_st
                  (\<lambda>s compo. forEach_st (observe_st fs) (files_at s (ref_files compo)) s)
                  (comps_at s0 (ref_components e)) s"
  note inner = observe_components_rep [OF Cons.prems(1) here]
  show ?case
  proof (cases ?inner)
    case (Inl err)
    with inner show ?thesis
      by (cases err) (simp add: fileScores_outcome_Inl same collect_scores_st_def)
  next
    case (Inr s')
    with inner obtain F'
      where "forEach_err (\<lambda>F compo. forEach_err (observe calculateFileAvgScore)
                                        (files_at s0 (ref_files compo)) F)
               (comps_at s0 (ref_components e)) F = Inr F'"
        and "fileScores_rep s0 fs s' F'"
      by (auto simp: fileScores_outcome_Inr)
    with Cons.IH [OF _ rest, of s' F'] Inr show ?thesis
      by (simp add: same collect_scores_st_def)
  qed
qed

lemma collect_scores_history_of:
  "collect_scores avg (history_of s h)
     = forEach_err
         (\<lambda>F entry.
            forEach_err (\<lambda>F compo. forEach_err (observe avg) (files_at s (ref_files compo)) F)
              (comps_at s (ref_components entry)) F) (entries_at s h) []"
proof -
  have inner: "forEach_err (\<lambda>F compo. forEach_err (observe avg) (files compo) F)
                 (map g cs) F
               = forEach_err (\<lambda>F compo. forEach_err (observe avg) (files (g compo)) F) cs F"
    for g :: "ComponentRef \<Rightarrow> ComponentResult" and cs F
    by (induction cs arbitrary: F) (simp_all split: sum.splits)
  have outer: "forEach_err body (map g es) F = forEach_err (\<lambda>F entry. body F (g entry)) es F"
    for body :: "(string \<times> jsval list) list \<Rightarrow> HealthHistoryEntry
                  \<Rightarrow> js_error + (string \<times> jsval list) list"
      and g :: "EntryRef \<Rightarrow> HealthHistoryEntry" and es F
    by (induction es arbitrary: F) (simp_all split: sum.splits)
  show ?thesis
    by (simp add: collect_scores_def history_of_def components_of_def outer inner)
qed

lemma add_trend_loop_st:
  assumes "refs_at s fs = kas" and "ft \<noteq> fs" and "ft \<notin> snd ` set kas"
    and "cells s ft = Some (TrendDict T)"
  shows "foldl (add_trend_st fs ft) s ks
           = overwrite ft
               (TrendDict
                  (foldl add_trend T
                     (map (\<lambda>k. (k, case map_of kas k of None \<Rightarrow> [] | Some a \<Rightarrow> scores_at s a)) ks)))
               s"
  using assms
proof (induction ks arbitrary: s T)
  case Nil
  then show ?case by (simp add: overwrite_same)
next
  case (Cons k ks)
  let ?scores = "case map_of kas k of None \<Rightarrow> [] | Some a \<Rightarrow> scores_at s a"
  let ?T = "add_trend T (k, ?scores)"
  let ?s = "overwrite ft (TrendDict ?T) s"
  have step: "add_trend_st fs ft s k = ?s"
    using Cons.prems
    by (simp add: add_trend_st_def add_trend_def Let_def trends_at_def overwrite_same)
  have refs: "refs_at ?s fs = kas"
    using Cons.prems by (simp add: refs_at_def)
  have cell: "cells ?s ft = Some (TrendDict ?T)"
    by simp
  have same: "(case map_of kas k' of None \<Rightarrow> [] | Some a \<Rightarrow> scores_at ?s a)
                = (case map_of kas k' of None \<Rightarrow> [] | Some a \<Rightarrow> scores_at s a)" for k'
    using Cons.prems(3) by (auto simp: scores_at_def split: option.splits dest!: map_of_SomeD)
       (metis snd_conv rev_image_eqI)
  show ?case
    using Cons.IH [OF refs Cons.prems(2,3) cell, unfolded same] step by simp
qed

text \<open>\<open>calculateFileTrends\<close> in a store: it returns what the operation without a
  store returns, or throws when that one throws, and in both cases every cell allocated
  before the call is as it was.\<close>

lemma calculateFileTrends_st_spec:
  assumes ha: "history_allocated s h"
  shows "(\<exists>r s'. calculateFileTrends_st h s = Inr (r, s') \<and> unchanged s s'
            \<and> calculateFileTrends (history_of s h) = Inr (trends_at s' r))
       \<or> (\<exists>s'. calculateFileTrends_st h s = Inl (TypeError, s') \<and> unchanged s s'
            \<and> calculateFileTrends (history_of s h) = Inl TypeError)"
proof (cases "length (entries_at s h) \<le> 1")
  case True
  then have "calculateFileTrends (history_of s h) = Inr []"
    by (simp add: calculateFileTrends_def file_trends_def history_of_def)
  with True show ?thesis
    using unchanged_alloc [of s "TrendDict []"]
    by (simp add: calculateFileTrends_st_def alloc_def trends_at_def)
next
  case False
  define entries where "entries = entries_at s h"
  define fs where "fs = next_addr s"
  define s1 where "s1 = s\<lparr>cells := (cells s)(fs \<mapsto> RefDict []), next_addr := Suc fs\<rparr>"
  have a1: "alloc (RefDict []) s = (fs, s1)"
    by (simp add: alloc_def s1_def fs_def)
  have rep1: "fileScores_rep s fs s1 []"
    by (simp add: fileScores_rep_def unchanged_def s1_def fs_def)
  have entry_alloc: "\<forall>e \<in> set entries. ref_components e < next_addr s
           \<and> (\<forall>c \<in> set (comps_at s (ref_components e)). ref_files c < next_addr s)"
    using ha by (auto simp: history_allocated_def entries_def list_all_iff)
  define pure where "pure = collect_scores calculateFileAvgScore (history_of s h)"
  have out: "fileScores_outcome s fs (collect_scores_st fs entries s1) pure"
    unfolding pure_def collect_scores_history_of entries_def [symmetric]
    using rep1 entry_alloc by (rule observe_entries_rep)
  have long: "\<not> length (history_of s h) \<le> 1"
    using False by (simp add: history_of_def)
  show ?thesis
  proof (cases "collect_scores_st fs entries s1")
    case (Inl err)
    obtain e s' where err: "err = (e, s')" by (cases err)
    have e: "e = TypeError" by (cases e)
    from out Inl err have p: "pure = Inl e" and u: "unchanged s s'"
      by (simp_all add: fileScores_outcome_def)
    have run: "calculateFileTrends_st h s = Inl (TypeError, s')"
      unfolding calculateFileTrends_st_def Let_def entries_def [symmetric] a1 prod.case
      using False Inl err e by (simp add: entries_def)
    have "calculateFileTrends (history_of s h) = Inl TypeError"
      using long p e by (simp add: calculateFileTrends_def file_trends_def pure_def)
    with run u show ?thesis by blast
  next
    case (Inr s2)
    with out obtain F where p: "pure = Inr F" and rep2: "fileScores_rep s fs s2 F"
      by (auto simp: fileScores_outcome_def)
    then obtain kas where u2: "unchanged s s2" and lo: "next_addr s \<le> fs"
      and hi: "fs < next_addr s2" and cell: "cells s2 fs = Some (RefDict kas)"
      and dk: "distinct (map fst kas)"
      and fresh: "\<forall>a \<in> snd ` set kas. next_addr s \<le> a \<and> a < next_addr s2"
      and rep: "map (\<lambda>(k, a). (k, scores_at s2 a)) kas = F"
      unfolding fileScores_rep_def by blast
    define ft where "ft = next_addr s2"
    define s3 where "s3 = s2\<lparr>cells := (cells s2)(ft \<mapsto> TrendDict []), next_addr := Suc ft\<rparr>"
    have a3: "alloc (TrendDict []) s2 = (ft, s3)"
      by (simp add: alloc_def s3_def ft_def)
    have ne: "ft \<noteq> fs"
      using hi by (simp add: ft_def)
    have notin: "ft \<notin> snd ` set kas"
      using fresh by (auto simp: ft_def)
    have refs3: "refs_at s3 fs = kas"
      using cell ne by (simp add: s3_def refs_at_def)
    have cell3: "cells s3 ft = Some (TrendDict [])"
      by (simp add: s3_def)
    define s4 where "s4 = foldl (add_trend_st fs ft) s3 (map fst (refs_at s3 fs))"
    have "(case map_of kas (fst x) of None \<Rightarrow> [] | Some a \<Rightarrow> scores_at s3 a) = scores_at s2 (snd x)"
      if "x \<in> set kas" for x
    proof -
      from that dk have "map_of kas (fst x) = Some (snd x)"
        by (metis map_of_is_SomeI prod.collapse)
      moreover from that notin have "snd x \<noteq> ft"
        by force
      ultimately show ?thesis
        by (simp add: s3_def scores_at_def)
    qed
    then have "map (\<lambda>k. (k, case map_of kas k of None \<Rightarrow> [] | Some a \<Rightarrow> scores_at s3 a))
                 (map fst kas) = F"
      unfolding rep [symmetric] by (simp add: case_prod_unfold)
    then have s4_eq: "s4 = overwrite ft (TrendDict (foldl add_trend [] F)) s3"
      unfolding s4_def refs3
      using add_trend_loop_st [OF refs3 ne notin cell3, of "map fst kas"] by simp
    have run: "calculateFileTrends_st h s = Inr (ft, s4)"
      unfolding calculateFileTrends_st_def Let_def entries_def [symmetric] a1 prod.case
      using False Inr a3 by (simp add: entries_def s4_def)
    have "unchanged s s3"
      using u2 by (auto simp: unchanged_def s3_def ft_def)
    moreover have "next_addr s \<le> ft"
      using unchanged_next [OF u2] by (simp add: ft_def)
    ultimately have u4: "unchanged s s4"
      unfolding s4_eq by (rule unchanged_overwrite)
    have "calculateFileTrends (history_of s h) = Inr (trends_at s4 ft)"
      using long p
      by (simp add: s4_eq trends_at_def calculateFileTrends_def file_trends_def pure_def)
    with run u4 show ?thesis by blast
  qed
qed

section \<open>The operations leave their inputs as they found them\<close>

text \<open>
  C9.  Run from a store in which their inputs are allocated, \<open>processFilesData\<close>,
  \<open>getFilesGroupedByType\<close> and \<open>calculateFileTrends\<close> leave every cell allocated
  before the call as it was, so the history read after the call is the history read
  before it; and what they return is the value the operation without a store computes
  from the inputs read as values.  Two runs, from two stores, on inputs that are equal
  as values therefore return equal values.  \<open>calculateFileTrends\<close> can throw: then it
  throws in both runs, as the operation without a store does, and the cells allocated
  before the call are as they were at the moment of the throw too.
\<close>

theorem aggregation_pure:
  "(currentFiles < next_addr s \<and> (\<forall>p. previousFiles = Some p \<longrightarrow> p < next_addr s)
     \<and> currentFiles' < next_addr t \<and> (\<forall>p. previousFiles' = Some p \<longrightarrow> p < next_addr t)
     \<and> files_at s currentFiles = files_at t currentFiles'
     \<and> map_option (files_at s) previousFiles = map_option (files_at t) previousFiles'
    \<longrightarrow> (\<exists>r s' r' t'.
          processFilesData_st currentFiles previousFiles s = (r, s')
          \<and> processFilesData_st currentFiles' previousFiles' t = (r', t')
          \<and> unchanged s s' \<and> unchanged t t'
          \<and> processed_at s' r
              = processFilesData (files_at s currentFiles) (map_option (files_at s) previousFiles)
          \<and> processed_at t' r' = processed_at s' r))
   \<and> (history_allocated s h \<and> history_allocated t g \<and> history_of s h = history_of t g
    \<longrightarrow> (\<exists>r s' r' t'.
          getFilesGroupedByType_st h s = Inr (r, s')
          \<and> getFilesGroupedByType_st g t = Inr (r', t')
          \<and> unchanged s s' \<and> unchanged t t'
          \<and> history_of s' h = history_of s h \<and> history_of t' g = history_of t g
          \<and> getFilesGroupedByType_history (history_of s h) = Inr (buckets_of s' r)
          \<and> buckets_of t' r' = buckets_of s' r)
      \<and> ((\<exists>r s' r' t'.
            calculateFileTrends_st h s = Inr (r, s')
            \<and> calculateFileTrends_st g t = Inr (r', t')
            \<and> unchanged s s' \<and> unchanged t t'
            \<and> history_of s' h = history_of s h \<and> history_of t' g = history_of t g
            \<and> calculateFileTrends (history_of s h) = Inr (trends_at s' r)
            \<and> trends_at t' r' = trends_at s' r)
         \<or> (\<exists>s' t'.
            calculateFileTrends_st h s = Inl (TypeError, s')
            \<and> calculateFileTrends_st g t = Inl (TypeError, t')
            \<and> unchanged s s' \<and> unchanged t t'
            \<and> history_of s' h = history_of s h \<and> history_of t' g = history_of t g
            \<and> calculateFileTrends (history_of s h) = Inl TypeError)))"
proof (intro conjI impI)
  assume a: "currentFiles < next_addr s \<and> (\<forall>p. previousFiles = Some p \<longrightarrow> p < next_addr s)
     \<and> currentFiles' < next_addr t \<and> (\<forall>p. previousFiles' = Some p \<longrightarrow> p < next_addr t)
     \<and> files_at s currentFiles = files_at t currentFiles'
     \<and> map_option (files_at s) previousFiles = map_option (files_at t) previousFiles'"
  from a processFilesData_st_spec [of currentFiles s previousFiles]
  obtain r s' where 1: "processFilesData_st currentFiles previousFiles s = (r, s')"
    "unchanged s s'"
    "processed_at s' r
       = processFilesData (files_at s currentFiles) (map_option (files_at s) previousFiles)"
    by auto
  from a processFilesData_st_spec [of currentFiles' t previousFiles']
  obtain r' t' where 2: "processFilesData_st currentFiles' previousFiles' t = (r', t')"
    "unchanged t t'"
    "processed_at t' r'
       = processFilesData (files_at t currentFiles') (map_option (files_at t) previousFiles')"
    by auto
  from a 1 2 show "\<exists>r s' r' t'.
          processFilesData_st currentFiles previousFiles s = (r, s')
          \<and> processFilesData_st currentFiles' previousFiles' t = (r', t')
          \<and> unchanged s s' \<and> unchanged t t'
          \<and> processed_at s' r
              = processFilesData (files_at s currentFiles) (map_option (files_at s) previousFiles)
          \<and> processed_at t' r' = processed_at s' r"
    by auto
next
  assume b: "history_allocated s h \<and> history_allocated t g \<and> history_of s h = history_of t g"
  from b getFilesGroupedByType_st_spec [of s h]
  obtain r s' where 1: "getFilesGroupedByType_st h s = Inr (r, s')" "unchanged s s'"
    "getFilesGroupedByType_history (history_of s h) = Inr (buckets_of s' r)"
    by auto
  from b getFilesGroupedByType_st_spec [of t g]
  obtain r' t' where 2: "getFilesGroupedByType_st g t = Inr (r', t')" "unchanged t t'"
    "getFilesGroupedByType_history (history_of t g) = Inr (buckets_of t' r')"
    by auto
  from b 1 2 history_of_unchanged [of s h s'] history_of_unchanged [of t g t']
  show "\<exists>r s' r' t'.
          getFilesGroupedByType_st h s = Inr (r, s')
          \<and> getFilesGroupedByType_st g t = Inr (r', t')
          \<and> unchanged s s' \<and> unchanged t t'
          \<and> history_of s' h = history_of s h \<and> history_of t' g = history_of t g
          \<and> getFilesGroupedByType_history (history_of s h) = Inr (buckets_of s' r)
          \<and> buckets_of t' r' = buckets_of s' r"
    by auto
next
  assume b: "history_allocated s h \<and> history_allocated t g \<and> history_of s h = history_of t g"
  then have hs: "history_allocated s h" and ht: "history_allocated t g"
    and eq: "history_of s h = history_of t g"
    by simp_all
  show "(\<exists>r s' r' t'.
            calculateFileTrends_st h s = Inr (r, s')
            \<and> calculateFileTrends_st g t = Inr (r', t')
            \<and> unchanged s s' \<and> unchanged t t'
            \<and> history_of s' h = history_of s h \<and> history_of t' g = history_of t g
            \<and> calculateFileTrends (history_of s h) = Inr (trends_at s' r)
            \<and> trends_at t' r' = trends_at s' r)
         \<or> (\<exists>s' t'.
            calculateFileTrends_st h s = Inl (TypeError, s')
            \<and> calculateFileTrends_st g t = Inl (TypeError, t')
            \<and> unchanged s s' \<and> unchanged t t'
            \<and> history_of s' h = history_of s h \<and> history_of t' g = history_of t g
            \<and> calculateFileTrends (history_of s h) = Inl TypeError)"
  proof (cases "calculateFileTrends (history_of s h)")
    case (Inr T)
    from calculateFileTrends_st_spec [OF hs] Inr
    obtain r s' where 1: "calculateFileTrends_st h s = Inr (r, s')" "unchanged s s'"
      "trends_at s' r = T"
      by auto
    from calculateFileTrends_st_spec [OF ht] Inr eq
    obtain r' t' where 2: "calculateFileTrends_st g t = Inr (r', t')" "unchanged t t'"
      "trends_at t' r' = T"
      by auto
    from 1 2 Inr hs ht history_of_unchanged [of s h s'] history_of_unchanged [of t g t']
    show ?thesis
      by auto
  next
    case (Inl e)
    from calculateFileTrends_st_spec [OF hs] Inl
    obtain s' where 1: "calculateFileTrends_st h s = Inl (TypeError, s')" "unchanged s s'"
      "e = TypeError"
      by auto
    from calculateFileTrends_st_spec [OF ht] Inl eq
    obtain t' where 2: "calculateFileTrends_st g t = Inl (TypeError, t')" "unchanged t t'"
      by auto
    from 1 2 Inl hs ht history_of_unchanged [of s h s'] history_of_unchanged [of t g t']
    show ?thesis
      by auto
  qed
qed

lemma example_store_history:
  "history_of example_store 4 = example_history"
  "history_of example_store' 0 = example_history"
  "history_allocated example_store 4"
  "history_allocated example_store' 0"
  by (simp_all add: history_of_def history_allocated_def components_of_def read_defs
      example_store_def example_store'_def example_history_def example_entry_def
      example_entry_ref_def example_component_def)

theorem aggregation_pure_witness:
  "history_allocated example_store 4 \<and> history_allocated example_store' 0
   \<and> history_of example_store 4 = history_of example_store' 0
   \<and> (\<exists>r s' r' t'.
          getFilesGroupedByType_st 4 example_store = Inr (r, s')
          \<and> getFilesGroupedByType_st 0 example_store' = Inr (r', t')
          \<and> unchanged example_store s' \<and> unchanged example_store' t'
          \<and> history_of s' 4 = example_history \<and> history_of t' 0 = example_history
          \<and> buckets_of s' r = example_sections
          \<and> buckets_of t' r' = example_sections)
   \<and> (\<exists>r s' r' t'.
          processFilesData_st 2 (Some 0) example_store = (r, s')
          \<and> processFilesData_st 1 (Some 5) example_store' = (r', t')
          \<and> unchanged example_store s' \<and> unchanged example_store' t'
          \<and> processed_at t' r' = processed_at s' r)
   \<and> (\<exists>r s' r' t'.
          calculateFileTrends_st 4 example_store = Inr (r, s')
          \<and> calculateFileTrends_st 0 example_store' = Inr (r', t')
          \<and> unchanged example_store s' \<and> unchanged example_store' t'
          \<and> history_of s' 4 = example_history \<and> history_of t' 0 = example_history
          \<and> trends_at s' r = [(''ui/pages/A.tsx'', \<lparr>trend = up, change = Num 10\<rparr>),
                                (''ui/pages/B.tsx'', \<lparr>trend = up, change = Num 50\<rparr>)]
          \<and> trends_at t' r' = trends_at s' r)"
proof -
  note inst = aggregation_pure [of 2 example_store "Some 0" 1 example_store' "Some 5" 4 0]
  have eq: "history_of example_store 4 = history_of example_store' 0"
    by (simp add: example_store_history)
  have sections: "getFilesGroupedByType_history example_history = Inr example_sections"
    using getFilesGroupedByType_history_eq [of example_history]
    by (simp add: example_sections_def example_history_def)
  have h1: "2 < next_addr example_store \<and> (\<forall>p. Some 0 = Some p \<longrightarrow> p < next_addr example_store)
     \<and> 1 < next_addr example_store' \<and> (\<forall>p. Some 5 = Some p \<longrightarrow> p < next_addr example_store')
     \<and> files_at example_store 2 = files_at example_store' 1
     \<and> map_option (files_at example_store) (Some 0)
         = map_option (files_at example_store') (Some 5)"
    by (simp add: example_store_def example_store'_def files_at_def)
  have h2: "history_allocated example_store 4 \<and> history_allocated example_store' 0
     \<and> history_of example_store 4 = history_of example_store' 0"
    by (simp add: example_store_history)
  from inst h1 have c1: "\<exists>r s' r' t'.
          processFilesData_st 2 (Some 0) example_store = (r, s')
          \<and> processFilesData_st 1 (Some 5) example_store' = (r', t')
          \<and> unchanged example_store s' \<and> unchanged example_store' t'
          \<and> processed_at t' r' = processed_at s' r"
    by blast
  from inst h2 obtain r s' r' t' where
    "getFilesGroupedByType_st 4 example_store = Inr (r, s')"
    "getFilesGroupedByType_st 0 example_store' = Inr (r', t')"
    "unchanged example_store s'" "unchanged example_store' t'"
    "history_of s' 4 = history_of example_store 4"
    "history_of t' 0 = history_of example_store' 0"
    "getFilesGroupedByType_history (history_of example_store 4) = Inr (buckets_of s' r)"
    "buckets_of t' r' = buckets_of s' r"
    by blast
  then have c2: "\<exists>r s' r' t'.
          getFilesGroupedByType_st 4 example_store = Inr (r, s')
          \<and> getFilesGroupedByType_st 0 example_store' = Inr (r', t')
          \<and> unchanged example_store s' \<and> unchanged example_store' t'
          \<and> history_of s' 4 = example_history \<and> history_of t' 0 = example_history
          \<and> buckets_of s' r = example_sections
          \<and> buckets_of t' r' = example_sections"
    using sections by (auto simp: example_store_history)
  have trends: "calculateFileTrends example_history
                  = Inr [(''ui/pages/A.tsx'', \<lparr>trend = up, change = Num 10\<rparr>),
                         (''ui/pages/B.tsx'', \<lparr>trend = up, change = Num 50\<rparr>)]"
    by (simp add: example_history_def example_entry_def example_previous_files_def
        example_latest_files_def example_file_def calculateFileTrends_def file_trends_def
        collect_scores_def observe_def obj_get_def obj_put_def inherited_def
        Object_prototype_keys_def Let_def add_trend_def trend_of_def calculateFileAvgScore_def)
  from inst h2 trends have c3: "\<exists>r s' r' t'.
          calculateFileTrends_st 4 example_store = Inr (r, s')
          \<and> calculateFileTrends_st 0 example_store' = Inr (r', t')
          \<and> unchanged example_store s' \<and> unchanged example_store' t'
          \<and> history_of s' 4 = example_history \<and> history_of t' 0 = example_history
          \<and> trends_at s' r = [(''ui/pages/A.tsx'', \<lparr>trend = up, change = Num 10\<rparr>),
                                (''ui/pages/B.tsx'', \<lparr>trend = up, change = Num 50\<rparr>)]
          \<and> trends_at t' r' = trends_at s' r"
    by (auto simp: example_store_history)
  from h2 c1 c2 c3 show ?thesis
    by blast
qed

section \<open>The examples of the specification\<close>

lemma score_examples:
  "calculateFileAvgScore (example_file ''a'' 90) = Num 90"
  "calculateFileAvgScore
     \<lparr>filepath = ''a'', size_score = Num 100, complexity_score = Num 100,
      duplication_score = Num 100, function_length_score = Num 100,
      comment_density_score = Num 100, naming_convention_score = Num 99, issues = []\<rparr> = Num 100"
  "calculateFileAvgScore
     \<lparr>filepath = ''a'', size_score = Num 0, complexity_score = Num 0,
      duplication_score = Num 0, function_length_score = Num 0,
      comment_density_score = Num 0, naming_convention_score = Num 1, issues = []\<rparr> = Num 0"
  by (simp_all add: calculateFileAvgScore_def example_file_def)

lemma categorize_examples:
  "categorizeFileByPath_api_first ''src/app/apis/foo/__init__.py'' = ''API Files''"
  "categorizeFileByPath_api_first ''ui/pages/Home.tsx'' = ''Pages''"
  "categorizeFileByPath_api_first ''ui/components/Button.tsx'' = ''Components''"
  "categorizeFileByPath_api_first ''ui/utils/helpers.ts'' = ''UI Files''"
  "categorizeFileByPath_api_first ''README.md'' = ''Other''"
  by (simp_all add: categorizeFileByPath_api_first_def is_api_path_def strip_leading_slashes_def
      regex_defs)

lemma end_to_end_example:
  "map_sum id (map (\<lambda>(k, fs). (k, map (\<lambda>v. (out_filepath v, score v, previousScore v,
                                                    scoreChange v)) fs)))
     (getFilesGroupedByType
        [example_entry [example_file ''ui/pages/A.tsx'' 80],
         example_entry [example_file ''ui/pages/A.tsx'' 90]])
   = Inr [(''Pages'', [(''ui/pages/A.tsx'', Num 90, Num 80, Num 10)]),
          (''Components'', []), (''UI Files'', []), (''API Files'', []), (''Other'', [])]"
  by (simp add: example_entry_def example_file_def
      calculateFileAvgScore_def record_previous_def obj_defs js_or_def Let_def
      getFilesGroupedByType_def group_files_def latest_entry_def previous_entry_def
      make_file_info_def allFiles_init_def categorizeFileByPath_page_def sort_each_def
      js_sort_def by_score_def)

lemma trend_example:
  "calculateFileTrends
     [example_entry [example_file ''ui/pages/A.tsx'' 60],
      example_entry [example_file ''ui/pages/A.tsx'' 70],
      example_entry [example_file ''ui/pages/A.tsx'' 65]]
   = Inr [(''ui/pages/A.tsx'', \<lparr>trend = up, change = Num 5\<rparr>)]"
  "calculateFileTrends [example_entry [example_file ''ui/pages/A.tsx'' 60]] = Inr []"
  by (simp_all add: calculateFileTrends_def file_trends_def collect_scores_def observe_def
      obj_get_def obj_put_def inherited_def Object_prototype_keys_def
      add_trend_def trend_of_def Let_def example_entry_def example_file_def
      calculateFileAvgScore_def)

end
